theory Spec2Isabelle
  imports Complex_Main
begin

section \<open>The environment of \<^verbatim>\<open>temp_manager.py\<close>\<close>

text \<open>
  \<^verbatim>\<open>TempManager\<close> owns no data structure of its own: everything it does is a call into the
  file system, the clock, the \<^verbatim>\<open>tempfile\<close> module, \<^verbatim>\<open>threading.Timer\<close> and the logger.
  The environment is therefore made explicit as a record \<open>world\<close> that every method
  takes and returns. A Python exception is a value of \<open>error\<close>; a method that raises
  still returns the manager and the world as they were when the exception left it, so
  that what a failing pass has done, and has not done, can be read off the result.
\<close>

datatype error =
    AttributeError
  | FileNotFoundError
  | FileExistsError
  | PermissionError
  | IsADirectoryError
  | OSError
  | Exception string

datatype level = DEBUG | INFO

datatype tstatus = Pending | Cancelled | Fired

datatype callback = TempManager_exit

text \<open>
  A directory entry. \<open>stat_err\<close> and \<open>unlink_err\<close> are the answers of the operating
  system for this entry: \<open>Some e\<close> means that the call on it raises \<open>e\<close> (the file
  vanished under a concurrent process, the permission is denied), \<open>None\<close> that it
  succeeds. A subdirectory is listed in its parent as an entry whose unlink raises
  \<^verbatim>\<open>IsADirectoryError\<close>. \<open>st_size\<close> is the length of a file's content.
\<close>

record entry =
  ename :: string
  st_mtime :: real
  st_size :: nat
  stat_err :: "error option"
  unlink_err :: "error option"

datatype event =
    Log level string
  | Mkdir string
  | Create string
  | Unlink string
  | Rmdir string
  | TimerStart nat
  | TimerCancel nat

text \<open>
  \<open>dirs\<close> maps the path of each existing directory to the files directly inside it, in
  listing order. \<open>tempdir\<close> is what \<^verbatim>\<open>tempfile.gettempdir()\<close> returns. \<open>rng\<close> is the
  sequence of candidate names of \<^verbatim>\<open>tempfile\<close> and \<open>drawn\<close> how many were taken;
  \<open>clock\<close> is the sequence of readings of \<^verbatim>\<open>time.time()\<close> and \<open>reads\<close> how many were
  taken. \<open>timers\<close> holds every \<^verbatim>\<open>threading.Timer\<close> started so far with its interval, a
  timer's handle being its index. \<open>trace\<close> lists the effects in the order they happened.
\<close>

record world =
  dirs :: "string \<rightharpoonup> entry list"
  tempdir :: string
  rng :: "nat \<Rightarrow> string"
  drawn :: nat
  clock :: "nat \<Rightarrow> real"
  reads :: nat
  timers :: "(real \<times> tstatus) list"
  atexit :: "callback list"
  trace :: "event list"

record manager =
  check_interval :: real
  remove_timeout :: real
  timer :: "nat option"
  temp_dir :: "string option"

type_synonym 'a result = "(error + 'a) \<times> manager \<times> world"

subsection \<open>Clock, logger, timers\<close>

definition time_time :: "world \<Rightarrow> real \<times> world" where
  "time_time w = (clock w (reads w), w\<lparr>reads := Suc (reads w)\<rparr>)"

text \<open>
  \<^verbatim>\<open>time.time()\<close> and \<^verbatim>\<open>st_mtime\<close> are doubles, and their difference is the double
  nearest to the exact difference, a tie going to the even significand; a difference
  beyond the largest double is an infinity. \<open>round_double\<close> rounds a real to 53
  significant bits above the smallest normal exponent, and to a multiple of \<open>2 ^ - 1074\<close>
  below it. The retention is a number that Python compares with the double exactly.
\<close>

definition round_even :: "real \<Rightarrow> int" where
  "round_even x =
     (let f = \<lfloor>x\<rfloor>; r = x - of_int f
      in if r < 1 / 2 then f else if r > 1 / 2 then f + 1 else if even f then f else f + 1)"

definition round_double :: "real \<Rightarrow> real" where
  "round_double y =
     (if y = 0 then 0
      else (let q = max \<lfloor>log 2 \<bar>y\<bar>\<rfloor> (- 1022) - 52
            in of_int (round_even (y / 2 powr of_int q)) * 2 powr of_int q))"

datatype pyfloat = Num real | PosInf | NegInf

definition float_sub :: "real \<Rightarrow> real \<Rightarrow> pyfloat" where
  "float_sub a b =
     (let y = round_double (a - b)
      in if y \<ge> 2 ^ 1024 then PosInf else if y \<le> - (2 ^ 1024) then NegInf else Num y)"

definition float_gt :: "pyfloat \<Rightarrow> real \<Rightarrow> bool" where
  "float_gt v r = (case v of Num y \<Rightarrow> y > r | PosInf \<Rightarrow> True | NegInf \<Rightarrow> False)"

definition logger :: "level \<Rightarrow> string \<Rightarrow> world \<Rightarrow> world" where
  "logger l s w = w\<lparr>trace := trace w @ [Log l s]\<rparr>"

definition timer_start :: "real \<Rightarrow> world \<Rightarrow> nat \<times> world" where
  "timer_start iv w =
     (length (timers w),
      w\<lparr>timers := timers w @ [(iv, Pending)],
        trace := trace w @ [TimerStart (length (timers w))]\<rparr>)"

text \<open>\<^verbatim>\<open>Timer.cancel()\<close> stops a timer that has not fired yet and is harmless otherwise.\<close>

definition timer_cancel :: "nat \<Rightarrow> world \<Rightarrow> world" where
  "timer_cancel h w =
     (if h < length (timers w)
      then w\<lparr>timers := (timers w)[h := (fst (timers w ! h),
                  if snd (timers w ! h) = Pending then Cancelled else snd (timers w ! h))],
             trace := trace w @ [TimerCancel h]\<rparr>
      else w\<lparr>trace := trace w @ [TimerCancel h]\<rparr>)"

definition pending :: "world \<Rightarrow> nat \<Rightarrow> bool" where
  "pending w h = (h < length (timers w) \<and> snd (timers w ! h) = Pending)"

definition any_pending :: "world \<Rightarrow> bool" where
  "any_pending w = list_ex (\<lambda>t. snd t = Pending) (timers w)"

subsection \<open>Paths\<close>

text \<open>\<^verbatim>\<open>posixpath.join\<close> of two components, \<^verbatim>\<open>posixpath.isabs\<close>, and the directory part of a path.\<close>

definition path_join :: "string \<Rightarrow> string \<Rightarrow> string" where
  "path_join a b =
     (if b \<noteq> [] \<and> hd b = CHR ''/'' then b
      else if a = [] \<or> last a = CHR ''/'' then a @ b
      else a @ ''/'' @ b)"

definition isabs :: "string \<Rightarrow> bool" where
  "isabs p = (p \<noteq> [] \<and> hd p = CHR ''/'')"

definition basename :: "string \<Rightarrow> string" where
  "basename p = rev (takeWhile (\<lambda>c. c \<noteq> CHR ''/'') (rev p))"

definition dirname :: "string \<Rightarrow> string" where
  "dirname p = rev (drop 1 (dropWhile (\<lambda>c. c \<noteq> CHR ''/'') (rev p)))"

subsection \<open>File system calls\<close>

definition names_of :: "entry list \<Rightarrow> string list" where
  "names_of es = map ename es"

definition lookup_entry :: "string \<Rightarrow> entry list \<Rightarrow> entry option" where
  "lookup_entry n es = find (\<lambda>e. ename e = n) es"

definition iterdir :: "string \<Rightarrow> world \<Rightarrow> error + string list" where
  "iterdir d w = (case dirs w d of None \<Rightarrow> Inl FileNotFoundError | Some es \<Rightarrow> Inr (names_of es))"

definition os_stat :: "string \<Rightarrow> string \<Rightarrow> world \<Rightarrow> error + real" where
  "os_stat d n w =
     (case dirs w d of
        None \<Rightarrow> Inl FileNotFoundError
      | Some es \<Rightarrow>
          (case lookup_entry n es of
             None \<Rightarrow> Inl FileNotFoundError
           | Some e \<Rightarrow> (case stat_err e of Some err \<Rightarrow> Inl err | None \<Rightarrow> Inr (st_mtime e))))"

definition os_unlink :: "string \<Rightarrow> string \<Rightarrow> world \<Rightarrow> (error + unit) \<times> world" where
  "os_unlink d n w =
     (case dirs w d of
        None \<Rightarrow> (Inl FileNotFoundError, w)
      | Some es \<Rightarrow>
          (case lookup_entry n es of
             None \<Rightarrow> (Inl FileNotFoundError, w)
           | Some e \<Rightarrow>
               (case unlink_err e of
                  Some err \<Rightarrow> (Inl err, w)
                | None \<Rightarrow>
                    (Inr (),
                     w\<lparr>dirs := (dirs w)(d \<mapsto> filter (\<lambda>x. ename x \<noteq> n) es),
                       trace := trace w @ [Unlink (path_join d n)]\<rparr>))))"

text \<open>
  \<^verbatim>\<open>rmdir\<close> removes an empty directory, and its entry from the listing of its parent.
\<close>

definition os_rmdir :: "string \<Rightarrow> world \<Rightarrow> (error + unit) \<times> world" where
  "os_rmdir d w =
     (case dirs w d of
        None \<Rightarrow> (Inl FileNotFoundError, w)
      | Some es \<Rightarrow>
          (if es = []
           then (Inr (),
                 w\<lparr>dirs :=
                     (case dirs w (dirname d) of
                        None \<Rightarrow> dirs w
                      | Some ps \<Rightarrow> (dirs w)(dirname d \<mapsto> filter (\<lambda>x. ename x \<noteq> basename d) ps))
                     (d := None),
                   trace := trace w @ [Rmdir d]\<rparr>)
           else (Inl OSError, w)))"

text \<open>
  \<^verbatim>\<open>os.open(file, O_CREAT | O_EXCL)\<close>: the new file is empty and carries the current
  reading of the clock. The directory of the file is looked up as the path writes it:
  the components \<^verbatim>\<open>.\<close> and \<^verbatim>\<open>..\<close> are not resolved, and every statement below about
  a created file is about a name without a path separator.
\<close>

definition os_open_excl :: "string \<Rightarrow> world \<Rightarrow> (error + unit) \<times> world" where
  "os_open_excl file w =
     (case dirs w (dirname file) of
        None \<Rightarrow> (Inl FileNotFoundError, w)
      | Some es \<Rightarrow>
          (if basename file \<in> set (names_of es) \<or> dirs w file \<noteq> None then (Inl FileExistsError, w)
           else (Inr (),
                 w\<lparr>dirs := (dirs w)(dirname file \<mapsto>
                       es @ [\<lparr>ename = basename file, st_mtime = clock w (reads w), st_size = 0,
                               stat_err = None, unlink_err = None\<rparr>]),
                   trace := trace w @ [Create file]\<rparr>)))"

text \<open>
  \<^verbatim>\<open>mkdir\<close>: the new directory is empty, and it is listed in its parent from then on.
\<close>

definition dir_entry :: "string \<Rightarrow> real \<Rightarrow> entry" where
  "dir_entry n t =
     \<lparr>ename = n, st_mtime = t, st_size = 0, stat_err = None, unlink_err = Some IsADirectoryError\<rparr>"

definition os_mkdir :: "string \<Rightarrow> world \<Rightarrow> (error + unit) \<times> world" where
  "os_mkdir p w =
     (case dirs w (dirname p) of
        None \<Rightarrow> (Inl FileNotFoundError, w)
      | Some es \<Rightarrow>
          (if basename p \<in> set (names_of es) \<or> dirs w p \<noteq> None then (Inl FileExistsError, w)
           else (Inr (),
                 w\<lparr>dirs := (dirs w)
                       (dirname p \<mapsto> es @ [dir_entry (basename p) (clock w (reads w))], p \<mapsto> []),
                   trace := trace w @ [Mkdir p]\<rparr>)))"

subsection \<open>The \<^verbatim>\<open>tempfile\<close> module\<close>

text \<open>
  \<^verbatim>\<open>tempfile\<close> draws candidate names and tries each one with an exclusive create, at most
  \<^verbatim>\<open>TMP_MAX\<close> times (\<^verbatim>\<open>os.TMP_MAX\<close>, which is 238328 on Linux); a name that exists already
  is skipped, any other error is raised.
\<close>

definition TMP_MAX :: nat where
  "TMP_MAX = 238328"

definition next_name :: "world \<Rightarrow> string \<times> world" where
  "next_name w = (rng w (drawn w), w\<lparr>drawn := Suc (drawn w)\<rparr>)"

fun mkstemp_inner :: "nat \<Rightarrow> string \<Rightarrow> string \<Rightarrow> string \<Rightarrow> world \<Rightarrow> (error + string) \<times> world" where
  "mkstemp_inner 0 dir pre suf w = (Inl FileExistsError, w)"
| "mkstemp_inner (Suc k) dir pre suf w =
     (case next_name w of (nm, w1) \<Rightarrow>
        (case os_open_excl (path_join dir (pre @ nm @ suf)) w1 of
           (Inl e, w2) \<Rightarrow>
             (if e = FileExistsError then mkstemp_inner k dir pre suf w2 else (Inl e, w2))
         | (Inr _, w2) \<Rightarrow> (Inr (path_join dir (pre @ nm @ suf)), w2)))"

fun mkdtemp_inner :: "nat \<Rightarrow> string \<Rightarrow> string \<Rightarrow> world \<Rightarrow> (error + string) \<times> world" where
  "mkdtemp_inner 0 dir pre w = (Inl FileExistsError, w)"
| "mkdtemp_inner (Suc k) dir pre w =
     (case next_name w of (nm, w1) \<Rightarrow>
        (case os_mkdir (path_join dir (pre @ nm)) w1 of
           (Inl e, w2) \<Rightarrow>
             (if e = FileExistsError then mkdtemp_inner k dir pre w2 else (Inl e, w2))
         | (Inr _, w2) \<Rightarrow> (Inr (path_join dir (pre @ nm)), w2)))"

definition mkdtemp :: "string \<Rightarrow> world \<Rightarrow> (error + string) \<times> world" where
  "mkdtemp pre w = mkdtemp_inner TMP_MAX (tempdir w) pre w"

text \<open>
  \<^verbatim>\<open>NamedTemporaryFile(dir=..., prefix=..., suffix=..., delete=False).name\<close>: a missing
  \<^verbatim>\<open>dir\<close> is the default temporary directory, a missing prefix is \<^verbatim>\<open>tmp\<close>, a missing
  suffix is empty.
\<close>

definition sanitize_dir :: "string option \<Rightarrow> world \<Rightarrow> string" where
  "sanitize_dir dir w = (case dir of None \<Rightarrow> tempdir w | Some d \<Rightarrow> d)"

definition sanitize_prefix :: "string option \<Rightarrow> string" where
  "sanitize_prefix prefix = (case prefix of None \<Rightarrow> ''tmp'' | Some p \<Rightarrow> p)"

definition sanitize_suffix :: "string option \<Rightarrow> string" where
  "sanitize_suffix suffix = (case suffix of None \<Rightarrow> [] | Some s \<Rightarrow> s)"

definition NamedTemporaryFile ::
  "string option \<Rightarrow> string option \<Rightarrow> string option \<Rightarrow> world \<Rightarrow> (error + string) \<times> world" where
  "NamedTemporaryFile dir prefix suffix w =
     mkstemp_inner TMP_MAX (sanitize_dir dir w) (sanitize_prefix prefix) (sanitize_suffix suffix) w"

section \<open>\<^verbatim>\<open>class TempManager\<close>\<close>

definition TempManager_init :: "real \<Rightarrow> real \<Rightarrow> world \<Rightarrow> manager \<times> world" where
  "TempManager_init ci rt w =
     (\<lparr>check_interval = ci, remove_timeout = rt, timer = None, temp_dir = None\<rparr>,
      w\<lparr>atexit := atexit w @ [TempManager_exit]\<rparr>)"

definition start_periodic_check :: "manager \<Rightarrow> world \<Rightarrow> unit result" where
  "start_periodic_check m w =
     (case timer_start (check_interval m) w of (h, w1) \<Rightarrow> (Inr (), m\<lparr>timer := Some h\<rparr>, w1))"

definition stop_periodic_check :: "manager \<Rightarrow> world \<Rightarrow> unit result" where
  "stop_periodic_check m w =
     (case timer m of
        None \<Rightarrow> (Inl AttributeError, m, w)
      | Some h \<Rightarrow> (Inr (), m\<lparr>timer := None\<rparr>, timer_cancel h w))"

definition enter :: "manager \<Rightarrow> world \<Rightarrow> unit result" where
  "enter m w =
     (case mkdtemp ''py_temp_manager-'' w of
        (Inl e, w1) \<Rightarrow> (Inl e, m, w1)
      | (Inr p, w1) \<Rightarrow>
          start_periodic_check (m\<lparr>temp_dir := Some p\<rparr>)
            (logger INFO (''Temporary directory created at '' @ p) w1))"

text \<open>The body of the loop of \<^verbatim>\<open>remove_old_files\<close>, over the listing taken when the loop starts.\<close>

fun remove_old_loop :: "manager \<Rightarrow> string \<Rightarrow> string list \<Rightarrow> world \<Rightarrow> (error + unit) \<times> world" where
  "remove_old_loop m d [] w = (Inr (), w)"
| "remove_old_loop m d (n # ns) w =
     (case time_time w of (t, w1) \<Rightarrow>
        (case os_stat d n w1 of
           Inl e \<Rightarrow> (Inl e, w1)
         | Inr mt \<Rightarrow>
             (if float_gt (float_sub t mt) (remove_timeout m)
              then (case os_unlink d n w1 of
                      (Inl e, w2) \<Rightarrow> (Inl e, w2)
                    | (Inr _, w2) \<Rightarrow>
                        remove_old_loop m d ns
                          (logger INFO (''Removed old file: '' @ path_join d n) w2))
              else remove_old_loop m d ns w1)))"

text \<open>The \<^verbatim>\<open>for\<close> statement of \<^verbatim>\<open>remove_old_files\<close>, and the whole method.\<close>

definition remove_old_for :: "manager \<Rightarrow> world \<Rightarrow> unit result" where
  "remove_old_for m w =
     (case temp_dir m of
        None \<Rightarrow> (Inl AttributeError, m, w)
      | Some d \<Rightarrow>
          (case iterdir d w of
             Inl e \<Rightarrow> (Inl e, m, w)
           | Inr ns \<Rightarrow> (case remove_old_loop m d ns w of (r, w1) \<Rightarrow> (r, m, w1))))"

definition remove_old_files :: "manager \<Rightarrow> world \<Rightarrow> unit result" where
  "remove_old_files m w =
     (case remove_old_for m w of
        (Inl e, m1, w1) \<Rightarrow> (Inl e, m1, w1)
      | (Inr _, m1, w1) \<Rightarrow> start_periodic_check m1 w1)"

fun remove_all_loop :: "string \<Rightarrow> string list \<Rightarrow> world \<Rightarrow> (error + unit) \<times> world" where
  "remove_all_loop d [] w = (Inr (), w)"
| "remove_all_loop d (n # ns) w =
     (case os_unlink d n w of
        (Inl e, w1) \<Rightarrow> (Inl e, w1)
      | (Inr _, w1) \<Rightarrow>
          remove_all_loop d ns (logger DEBUG (''Removed file: '' @ path_join d n) w1))"

definition remove_temp_dir :: "manager \<Rightarrow> world \<Rightarrow> unit result" where
  "remove_temp_dir m w =
     (case temp_dir m of
        None \<Rightarrow> (Inl AttributeError, m, w)
      | Some d \<Rightarrow>
          (case iterdir d w of
             Inl e \<Rightarrow> (Inl e, m, w)
           | Inr ns \<Rightarrow>
               (case remove_all_loop d ns w of
                  (Inl e, w1) \<Rightarrow> (Inl e, m, w1)
                | (Inr _, w1) \<Rightarrow>
                    (case os_rmdir d w1 of
                       (Inl e, w2) \<Rightarrow> (Inl e, m, w2)
                     | (Inr _, w2) \<Rightarrow>
                         (Inr (), m\<lparr>temp_dir := None\<rparr>,
                          logger INFO (''Temporary directory '' @ d @ '' deleted'') w2)))))"

definition exit :: "manager \<Rightarrow> world \<Rightarrow> unit result" where
  "exit m w =
     (case (if timer m \<noteq> None then stop_periodic_check m w else (Inr (), m, w)) of
        (Inl e, m1, w1) \<Rightarrow> (Inl e, m1, w1)
      | (Inr _, m1, w1) \<Rightarrow>
          (if temp_dir m1 \<noteq> None then remove_temp_dir m1 w1 else (Inr (), m1, w1)))"

definition request_temp_file :: "manager \<Rightarrow> string option \<Rightarrow> string option \<Rightarrow> world \<Rightarrow> string result" where
  "request_temp_file m prefix suffix w =
     (case NamedTemporaryFile (temp_dir m) prefix suffix w of (r, w1) \<Rightarrow> (r, m, w1))"




text \<open>What the interpreter calls at exit for a callback registered with \<^verbatim>\<open>atexit.register\<close>.\<close>

fun run_callback :: "callback \<Rightarrow> manager \<Rightarrow> world \<Rightarrow> unit result" where
  "run_callback TempManager_exit m w = exit m w"

text \<open>
  A timer that fires runs \<^verbatim>\<open>remove_old_files\<close> on its own thread. The method is two
  statements, the loop and the call of \<^verbatim>\<open>start_periodic_check\<close>; the schedule below is
  the one where the main thread runs \<^verbatim>\<open>exit\<close> between them.
\<close>

definition timer_fire :: "nat \<Rightarrow> world \<Rightarrow> world" where
  "timer_fire h w =
     (if pending w h then w\<lparr>timers := (timers w)[h := (fst (timers w ! h), Fired)]\<rparr> else w)"

definition sweep_around_exit :: "manager \<Rightarrow> world \<Rightarrow> unit result" where
  "sweep_around_exit m w =
     (case remove_old_for m w of
        (Inl e, m1, w1) \<Rightarrow> (Inl e, m1, w1)
      | (Inr _, m1, w1) \<Rightarrow>
          (case exit m1 w1 of
             (Inl e, m2, w2) \<Rightarrow> (Inl e, m2, w2)
           | (Inr _, m2, w2) \<Rightarrow> start_periodic_check m2 w2))"

section \<open>Specification functions and concrete states\<close>

text \<open>The effects of a teardown loop that unlinks every name of a listing.\<close>

definition unlink_events :: "string \<Rightarrow> string list \<Rightarrow> event list" where
  "unlink_events d ns =
     concat (map (\<lambda>n. [Unlink (path_join d n), Log DEBUG (''Removed file: '' @ path_join d n)]) ns)"

text \<open>Files and states used to run the methods on concrete inputs.\<close>

definition plain_file :: "string \<Rightarrow> real \<Rightarrow> entry" where
  "plain_file n t = \<lparr>ename = n, st_mtime = t, st_size = 0, stat_err = None, unlink_err = None\<rparr>"

definition locked_file :: "string \<Rightarrow> real \<Rightarrow> entry" where
  "locked_file n t =
     \<lparr>ename = n, st_mtime = t, st_size = 0, stat_err = None, unlink_err = Some PermissionError\<rparr>"

definition vanished_file :: "string \<Rightarrow> real \<Rightarrow> entry" where
  "vanished_file n t =
     \<lparr>ename = n, st_mtime = t, st_size = 0, stat_err = Some FileNotFoundError,
      unlink_err = Some FileNotFoundError\<rparr>"

text \<open>
  The clock of \<open>world0\<close> moves on by \<open>1 / 1024\<close> of a second with every reading; its
  readings, and the modification times used with it, are doubles.
\<close>

definition world0 :: world where
  "world0 =
     \<lparr>dirs = [''/tmp'' \<mapsto> []], tempdir = ''/tmp'', rng = (\<lambda>k. replicate (Suc k) CHR ''a''),
      drawn = 0, clock = (\<lambda>k. 1000 + real k / 1024), reads = 0, timers = [], atexit = [],
      trace = []\<rparr>"

definition manager0 :: manager where
  "manager0 = \<lparr>check_interval = 60, remove_timeout = 600, timer = None, temp_dir = None\<rparr>"

definition manager1 :: manager where
  "manager1 = \<lparr>check_interval = 60, remove_timeout = 600, timer = Some 0, temp_dir = Some ''/tmp/s''\<rparr>"

definition world1 :: "entry list \<Rightarrow> world" where
  "world1 es =
     world0\<lparr>dirs := [''/tmp'' \<mapsto> [dir_entry ''s'' 0], ''/tmp/s'' \<mapsto> es], drawn := 1,
            timers := [(60, Pending)],
            atexit := [TempManager_exit]\<rparr>"

text \<open>The entry that an exclusive create of name \<open>n\<close> adds to a directory.\<close>

definition new_file :: "string \<Rightarrow> world \<Rightarrow> entry" where
  "new_file n w = \<lparr>ename = n, st_mtime = clock w (reads w), st_size = 0, stat_err = None, unlink_err = None\<rparr>"

text \<open>A sequence of calls of \<^verbatim>\<open>request_temp_file\<close>; the first exception ends it.\<close>

fun request_all ::
  "manager \<Rightarrow> (string option \<times> string option) list \<Rightarrow> world \<Rightarrow> string list result" where
  "request_all m [] w = (Inr [], m, w)"
| "request_all m (a # as) w =
     (case request_temp_file m (fst a) (snd a) w of
        (Inl e, m1, w1) \<Rightarrow> (Inl e, m1, w1)
      | (Inr f, m1, w1) \<Rightarrow>
          (case request_all m1 as w1 of
             (Inl e, m2, w2) \<Rightarrow> (Inl e, m2, w2)
           | (Inr fs, m2, w2) \<Rightarrow> (Inr (f # fs), m2, w2)))"

text \<open>A path \<open>p\<close> carries the prefix and the suffix asked for by \<open>a\<close>.\<close>

definition decorated :: "string option \<times> string option \<Rightarrow> string \<Rightarrow> bool" where
  "decorated a p =
     (let n = basename p; pre = sanitize_prefix (fst a); suf = sanitize_suffix (snd a)
      in length pre + length suf \<le> length n \<and> take (length pre) n = pre
         \<and> drop (length n - length suf) n = suf)"

text \<open>
  What a sweep keeps of a listing when its \<open>k\<close>-th reading of the clock is \<open>c k\<close>: the
  entries for which the double difference of the reading taken for them and their
  modification time is not greater than the retention.
\<close>

fun kept_by_sweep :: "manager \<Rightarrow> (nat \<Rightarrow> real) \<Rightarrow> nat \<Rightarrow> entry list \<Rightarrow> entry list" where
  "kept_by_sweep m c k [] = []"
| "kept_by_sweep m c k (e # es) =
     (if float_gt (float_sub (c k) (st_mtime e)) (remove_timeout m)
      then kept_by_sweep m c (Suc k) es
      else e # kept_by_sweep m c (Suc k) es)"

text \<open>The effects of the loop of a sweep over a listing, under the same readings.\<close>

fun sweep_events :: "manager \<Rightarrow> string \<Rightarrow> (nat \<Rightarrow> real) \<Rightarrow> nat \<Rightarrow> entry list \<Rightarrow> event list" where
  "sweep_events m d c k [] = []"
| "sweep_events m d c k (e # es) =
     (if float_gt (float_sub (c k) (st_mtime e)) (remove_timeout m)
      then [Unlink (path_join d (ename e)), Log INFO (''Removed old file: '' @ path_join d (ename e))]
      else [])
     @ sweep_events m d c (Suc k) es"


section \<open>Frame lemmas of the environment calls\<close>

lemma logger_simps [simp]:
  "dirs (logger l s w) = dirs w"
  "timers (logger l s w) = timers w"
  "atexit (logger l s w) = atexit w"
  "tempdir (logger l s w) = tempdir w"
  "rng (logger l s w) = rng w"
  "drawn (logger l s w) = drawn w"
  "clock (logger l s w) = clock w"
  "reads (logger l s w) = reads w"
  "trace (logger l s w) = trace w @ [Log l s]"
  by (simp_all add: logger_def)

lemma os_unlink_frame:
  "os_unlink d n w = (r, w') \<Longrightarrow>
     timers w' = timers w \<and> atexit w' = atexit w \<and> tempdir w' = tempdir w \<and> rng w' = rng w
     \<and> drawn w' = drawn w \<and> clock w' = clock w \<and> reads w' = reads w"
  by (auto simp: os_unlink_def split: option.splits)

lemma os_rmdir_frame:
  "os_rmdir d w = (r, w') \<Longrightarrow>
     timers w' = timers w \<and> atexit w' = atexit w \<and> tempdir w' = tempdir w \<and> rng w' = rng w
     \<and> drawn w' = drawn w \<and> clock w' = clock w \<and> reads w' = reads w"
  by (auto simp: os_rmdir_def split: option.splits if_splits)

lemma os_open_excl_frame:
  "os_open_excl f w = (r, w') \<Longrightarrow>
     timers w' = timers w \<and> atexit w' = atexit w \<and> tempdir w' = tempdir w \<and> rng w' = rng w
     \<and> drawn w' = drawn w \<and> clock w' = clock w \<and> reads w' = reads w"
  by (auto simp: os_open_excl_def split: option.splits if_splits)

lemma remove_all_loop_frame:
  "remove_all_loop d ns w = (r, w') \<Longrightarrow>
     timers w' = timers w \<and> atexit w' = atexit w \<and> tempdir w' = tempdir w \<and> rng w' = rng w
     \<and> drawn w' = drawn w \<and> clock w' = clock w \<and> reads w' = reads w"
proof (induction ns arbitrary: w)
  case Nil
  then show ?case by simp
next
  case (Cons n ns)
  obtain r1 w1 where u: "os_unlink d n w = (r1, w1)" by (cases "os_unlink d n w")
  note f = os_unlink_frame [OF u]
  show ?case
  proof (cases r1)
    case (Inl e)
    with Cons.prems u f show ?thesis by simp
  next
    case (Inr x)
    with Cons.prems u
    have "remove_all_loop d ns (logger DEBUG (''Removed file: '' @ path_join d n) w1) = (r, w')"
      by simp
    from Cons.IH [OF this] f show ?thesis by simp
  qed
qed

lemma mkstemp_inner_frame:
  "mkstemp_inner k dir pre suf w = (r, w') \<Longrightarrow>
     timers w' = timers w \<and> atexit w' = atexit w \<and> tempdir w' = tempdir w \<and> rng w' = rng w
     \<and> clock w' = clock w \<and> reads w' = reads w"
proof (induction k arbitrary: w)
  case 0
  then show ?case by simp
next
  case (Suc k)
  let ?w1 = "w\<lparr>drawn := Suc (drawn w)\<rparr>"
  let ?f = "path_join dir (pre @ rng w (drawn w) @ suf)"
  obtain r2 w2 where o: "os_open_excl ?f ?w1 = (r2, w2)" by (cases "os_open_excl ?f ?w1")
  note f = os_open_excl_frame [OF o]
  show ?case
  proof (cases "r2 = Inl FileExistsError")
    case True
    with Suc.prems o have "mkstemp_inner k dir pre suf w2 = (r, w')"
      by (simp add: next_name_def)
    from Suc.IH [OF this] f show ?thesis by simp
  next
    case False
    with Suc.prems o have "w' = w2"
      by (cases r2) (auto simp: next_name_def split: if_splits)
    with f show ?thesis by simp
  qed
qed

section \<open>Double precision\<close>

text \<open>
  A difference with at most 53 significant bits, of magnitude between \<open>2 ^ j\<close> and
  \<open>2 ^ (j + 1)\<close>, is computed exactly.
\<close>

lemma round_even_int: "round_even (of_int n) = n"
  by (simp add: round_even_def)

lemma round_double_exact:
  assumes lo: "2 ^ j \<le> \<bar>y\<bar>" and hi: "\<bar>y\<bar> < 2 ^ Suc j" and j: "j \<le> 52"
    and int: "y * 2 ^ (52 - j) \<in> \<int>"
  shows "round_double y = y"
proof -
  have "(0::real) < 2 ^ j" by simp
  with lo have pos: "0 < \<bar>y\<bar>" by linarith
  then have ny: "y \<noteq> 0" by simp
  have "\<lfloor>log 2 \<bar>y\<bar>\<rfloor> = int j"
  proof -
    have "2 powr real_of_int (int j) \<le> \<bar>y\<bar>" using lo by (simp add: powr_realpow)
    moreover have "\<bar>y\<bar> < 2 powr (real_of_int (int j) + 1)"
      using hi by (simp add: powr_add powr_realpow)
    ultimately show ?thesis using pos by (simp add: floor_log_eq_powr_iff)
  qed
  then have q: "max \<lfloor>log 2 \<bar>y\<bar>\<rfloor> (- 1022) - 52 = int j - 52" by simp
  have p: "2 powr real_of_int (int j - 52) = 1 / 2 ^ (52 - j)"
  proof -
    from j have "real_of_int (int j - 52) = - real (52 - j)" by simp
    then have "2 powr real_of_int (int j - 52) = 2 powr (- real (52 - j))" by (simp only:)
    also have "\<dots> = 1 / 2 ^ (52 - j)"
      by (simp add: powr_minus powr_realpow divide_inverse)
    finally show ?thesis .
  qed
  from int obtain n where n: "y * 2 ^ (52 - j) = of_int n" by (auto simp: Ints_def)
  then have "y / (1 / 2 ^ (52 - j)) = of_int n" by simp
  with ny q p have "round_double y = of_int n * (1 / 2 ^ (52 - j))"
    by (simp add: round_double_def round_even_int del: of_int_diff)
  also from n have "\<dots> = y" by (simp add: field_simps)
  finally show ?thesis .
qed

lemma float_gt_sub_exact:
  assumes "2 ^ j \<le> \<bar>a - b\<bar>" "\<bar>a - b\<bar> < 2 ^ Suc j" "j \<le> 52" "(a - b) * 2 ^ (52 - j) \<in> \<int>"
  shows "float_gt (float_sub a b) r = (a - b > r)"
proof -
  have "(2::real) ^ Suc j \<le> 2 ^ 1024" using assms(3) by (intro power_increasing) simp_all
  with assms(2) have "\<bar>a - b\<bar> < 2 ^ 1024" by linarith
  then have "\<not> a - b \<ge> 2 ^ 1024" "\<not> a - b \<le> - (2 ^ 1024)" by linarith+
  with round_double_exact [OF assms] show ?thesis
    by (simp add: float_sub_def float_gt_def)
qed

lemmas float_gt_sub_512 = float_gt_sub_exact [where j = 9, simplified]

text \<open>
  The difference is not always the exact one: here the exact difference is greater than
  the retention \<open>2 ^ 24\<close>, and the double difference is not.
\<close>

lemma float_sub_rounds:
  "\<not> float_gt (float_sub (2 ^ 24 + 1 / 2 ^ 28) (3 / 10 ^ 9)) (2 ^ 24)
   \<and> (2 ^ 24 + 1 / 2 ^ 28) - 3 / 10 ^ 9 > (2 ^ 24 :: real)"
proof -
  let ?y = "(2 ^ 24 + 1 / 2 ^ 28) - 3 / 10 ^ 9 :: real"
  have pos: "0 < \<bar>?y\<bar>" by simp
  have "\<lfloor>log 2 \<bar>?y\<bar>\<rfloor> = 24"
  proof -
    have "2 powr real_of_int 24 \<le> \<bar>?y\<bar>" by simp
    moreover have "\<bar>?y\<bar> < 2 powr (real_of_int 24 + 1)" by simp
    ultimately show ?thesis using pos floor_log_eq_powr_iff [of "\<bar>?y\<bar>" 2 24] by simp
  qed
  then have q: "max \<lfloor>log 2 \<bar>?y\<bar>\<rfloor> (- 1022) - 52 = - 28" by simp
  have p: "2 powr real_of_int (- 28) = 1 / 2 ^ 28"
    by (simp add: powr_neg_numeral)
  have fl: "\<lfloor>?y / (1 / 2 ^ 28)\<rfloor> = 2 ^ 52" by (simp add: floor_eq_iff)
  have re: "round_even (?y / (1 / 2 ^ 28)) = 2 ^ 52"
    unfolding round_even_def Let_def fl by simp
  have ny: "?y \<noteq> 0" by simp
  have "round_double ?y =
      of_int (round_even (?y / 2 powr of_int (max \<lfloor>log 2 \<bar>?y\<bar>\<rfloor> (- 1022) - 52)))
        * 2 powr of_int (max \<lfloor>log 2 \<bar>?y\<bar>\<rfloor> (- 1022) - 52)"
    unfolding round_double_def Let_def using ny by (simp only: if_False)
  also have "\<dots> = of_int (2 ^ 52) * (1 / 2 ^ 28)" unfolding q p re ..
  also have "\<dots> = 2 ^ 24" by simp
  finally have "round_double ?y = 2 ^ 24" .
  then show ?thesis by (simp add: float_sub_def float_gt_def)
qed

section \<open>Teardown\<close>

lemma remove_all_loop_trace:
  "remove_all_loop d ns w = (Inr u, w') \<Longrightarrow> trace w' = trace w @ unlink_events d ns"
proof (induction ns arbitrary: w)
  case Nil
  then show ?case by (simp add: unlink_events_def)
next
  case (Cons n ns)
  obtain r1 w1 where u: "os_unlink d n w = (r1, w1)" by (cases "os_unlink d n w")
  with Cons.prems obtain x where r1: "r1 = Inr x" by (cases r1) auto
  from u r1 have t1: "trace w1 = trace w @ [Unlink (path_join d n)]"
    by (auto simp: os_unlink_def split: option.splits)
  from Cons.prems u r1
  have "remove_all_loop d ns (logger DEBUG (''Removed file: '' @ path_join d n) w1) = (Inr u, w')"
    by simp
  from Cons.IH [OF this] t1 show ?case by (simp add: unlink_events_def)
qed

lemma remove_all_loop_total:
  "dirs w d = Some es \<Longrightarrow> distinct (names_of es) \<Longrightarrow> \<forall>e\<in>set es. unlink_err e = None \<Longrightarrow>
     \<exists>w'. remove_all_loop d (names_of es) w = (Inr (), w') \<and> dirs w' = (dirs w)(d \<mapsto> [])"
proof (induction es arbitrary: w)
  case Nil
  then show ?case by (auto simp: names_of_def)
next
  case (Cons e es)
  from Cons.prems have "ename e \<notin> ename ` set es" by (simp add: names_of_def)
  then have "\<forall>x\<in>set es. ename x \<noteq> ename e" by (metis imageI)
  then have flt: "filter (\<lambda>x. ename x \<noteq> ename e) es = es"
    by (simp add: filter_id_conv)
  let ?w1 = "w\<lparr>dirs := (dirs w)(d \<mapsto> es), trace := trace w @ [Unlink (path_join d (ename e))]\<rparr>"
  from Cons.prems flt have u: "os_unlink d (ename e) w = (Inr (), ?w1)"
    by (simp add: os_unlink_def lookup_entry_def)
  let ?w2 = "logger DEBUG (''Removed file: '' @ path_join d (ename e)) ?w1"
  have "dirs ?w2 d = Some es" by simp
  moreover from Cons.prems have "distinct (names_of es)" "\<forall>e\<in>set es. unlink_err e = None"
    by (simp_all add: names_of_def)
  ultimately obtain w' where
    "remove_all_loop d (names_of es) ?w2 = (Inr (), w')" "dirs w' = (dirs ?w2)(d \<mapsto> [])"
    using Cons.IH by blast
  with u show ?case by (auto simp: names_of_def fun_eq_iff)
qed

lemma remove_temp_dir_ok:
  assumes "temp_dir m = Some d" and "dirs w d = Some es"
    and "remove_temp_dir m w = (Inr u, m', w')"
  shows "m' = m\<lparr>temp_dir := None\<rparr> \<and> dirs w' d = None \<and> timers w' = timers w
         \<and> trace w' = trace w @ unlink_events d (names_of es)
              @ [Rmdir d, Log INFO (''Temporary directory '' @ d @ '' deleted'')]"
proof -
  obtain r1 w1 where l: "remove_all_loop d (names_of es) w = (r1, w1)"
    by (cases "remove_all_loop d (names_of es) w")
  with assms obtain x where r1: "r1 = Inr x"
    by (cases r1) (auto simp: remove_temp_dir_def iterdir_def)
  obtain r2 w2 where r: "os_rmdir d w1 = (r2, w2)" by (cases "os_rmdir d w1")
  with assms l r1 obtain y where r2: "r2 = Inr y"
    by (cases r2) (auto simp: remove_temp_dir_def iterdir_def)
  from assms l r1 r r2
  have res: "m' = m\<lparr>temp_dir := None\<rparr>"
    "w' = logger INFO (''Temporary directory '' @ d @ '' deleted'') w2"
    by (auto simp: remove_temp_dir_def iterdir_def)
  from r r2 have w2: "dirs w2 d = None" "trace w2 = trace w1 @ [Rmdir d]"
    by (auto simp: os_rmdir_def split: option.splits if_splits)
  from l r1 have "trace w1 = trace w @ unlink_events d (names_of es)"
    using remove_all_loop_trace by blast
  with res w2 remove_all_loop_frame [OF l] os_rmdir_frame [OF r] show ?thesis by simp
qed

lemma remove_temp_dir_total:
  assumes "temp_dir m = Some d" and "dirs w d = Some es"
    and "distinct (names_of es)" and "\<forall>e\<in>set es. unlink_err e = None"
  shows "\<exists>m' w'. remove_temp_dir m w = (Inr (), m', w')"
proof -
  from remove_all_loop_total [OF assms(2-4)] obtain w1 where
    l: "remove_all_loop d (names_of es) w = (Inr (), w1)" and d: "dirs w1 = (dirs w)(d \<mapsto> [])"
    by blast
  from d have "\<exists>w2. os_rmdir d w1 = (Inr (), w2)" by (simp add: os_rmdir_def)
  with assms l show ?thesis by (auto simp: remove_temp_dir_def iterdir_def)
qed

lemma timer_cancel_simps:
  "dirs (timer_cancel h w) = dirs w"
  "trace (timer_cancel h w) = trace w @ [TimerCancel h]"
  "\<not> pending (timer_cancel h w) h"
  by (auto simp: timer_cancel_def pending_def)

lemma pending_cong: "timers w' = timers w \<Longrightarrow> pending w' h = pending w h"
  by (simp add: pending_def)



text \<open>
  C1, as stated, fails. On an activated manager whose scratch directory lists a file
  that has vanished, the teardown cancels the timer and unlinks the file before it, and
  then ends with the error of the failed unlink: the directory is still there, with the
  entry in it, and the scratch directory is still set.
\<close>

theorem teardown_removes_directory_counterexample:
  "temp_dir manager1 = Some ''/tmp/s''
   \<and> dirs (world1 [plain_file ''a'' 0, vanished_file ''b'' 0]) ''/tmp/s''
       = Some [plain_file ''a'' 0, vanished_file ''b'' 0]
   \<and> fst (exit manager1 (world1 [plain_file ''a'' 0, vanished_file ''b'' 0])) = Inl FileNotFoundError
   \<and> temp_dir (fst (snd (exit manager1 (world1 [plain_file ''a'' 0, vanished_file ''b'' 0]))))
       = Some ''/tmp/s''
   \<and> dirs (snd (snd (exit manager1 (world1 [plain_file ''a'' 0, vanished_file ''b'' 0])))) ''/tmp/s''
       = Some [vanished_file ''b'' 0]"
  by (simp add: exit_def stop_periodic_check_def timer_cancel_def remove_temp_dir_def iterdir_def
      os_unlink_def lookup_entry_def names_of_def logger_def manager1_def world1_def world0_def
      plain_file_def vanished_file_def)

text \<open>
  C1, amended. On a manager that was activated (its scratch directory \<open>d\<close> is set and
  exists), a teardown that returns has cancelled the manager's timer, then unlinked every
  file of the directory in listing order, whatever its age, then removed the directory,
  and has left the manager inactive: the directory no longer exists. The teardown does
  return whenever every entry of the directory can be unlinked, however many there are.
\<close>

theorem teardown_removes_directory:
  assumes "temp_dir m = Some d" and "dirs w d = Some es"
  shows "(exit m w = (Inr (), m', w') \<longrightarrow>
            m' = m\<lparr>timer := None, temp_dir := None\<rparr> \<and> dirs w' d = None
            \<and> (\<forall>h. timer m = Some h \<longrightarrow> \<not> pending w' h)
            \<and> trace w' = trace w @ (case timer m of None \<Rightarrow> [] | Some h \<Rightarrow> [TimerCancel h])
                 @ unlink_events d (names_of es)
                 @ [Rmdir d, Log INFO (''Temporary directory '' @ d @ '' deleted'')])
       \<and> (distinct (names_of es) \<and> (\<forall>e\<in>set es. unlink_err e = None) \<longrightarrow>
            (\<exists>m' w'. exit m w = (Inr (), m', w')))"
proof (cases "timer m")
  case None
  with assms have e: "exit m w = remove_temp_dir m w" by (simp add: exit_def)
  show ?thesis
    using remove_temp_dir_ok [OF assms, of "()" m' w'] remove_temp_dir_total [OF assms] None e
    by auto
next
  case (Some h)
  let ?m1 = "m\<lparr>timer := None\<rparr>" and ?w1 = "timer_cancel h w"
  from assms Some have e: "exit m w = remove_temp_dir ?m1 ?w1"
    by (simp add: exit_def stop_periodic_check_def)
  have a: "temp_dir ?m1 = Some d" "dirs ?w1 d = Some es"
    using assms by (simp_all add: timer_cancel_simps)
  show ?thesis
    using remove_temp_dir_ok [OF a, of "()" m' w'] remove_temp_dir_total [OF a] Some e
      timer_cancel_simps(3) [of h w] pending_cong [of w' ?w1 h]
    by (auto simp: timer_cancel_simps)
qed

theorem teardown_removes_directory_witness:
  "\<exists>m' w'. exit manager1 (world1 [plain_file ''a'' 1, plain_file ''b'' 999]) = (Inr (), m', w')
     \<and> temp_dir m' = None \<and> timer m' = None \<and> dirs w' ''/tmp/s'' = None \<and> \<not> pending w' 0
     \<and> trace w' = [TimerCancel 0, Unlink ''/tmp/s/a'', Log DEBUG ''Removed file: /tmp/s/a'',
          Unlink ''/tmp/s/b'', Log DEBUG ''Removed file: /tmp/s/b'', Rmdir ''/tmp/s'',
          Log INFO ''Temporary directory /tmp/s deleted'']"
proof -
  let ?es = "[plain_file ''a'' 1, plain_file ''b'' 999]"
  have h1: "temp_dir manager1 = Some ''/tmp/s''" by (simp add: manager1_def)
  have h2: "dirs (world1 ?es) ''/tmp/s'' = Some ?es" by (simp add: world1_def world0_def)
  have h3: "distinct (names_of ?es) \<and> (\<forall>e\<in>set ?es. unlink_err e = None)"
    by (simp add: names_of_def plain_file_def)
  from teardown_removes_directory [OF h1 h2] h3
  obtain m' w' where e: "exit manager1 (world1 ?es) = (Inr (), m', w')" by blast
  have t: "timer manager1 = Some 0" "trace (world1 ?es) = []"
    by (simp_all add: manager1_def world1_def world0_def)
  from teardown_removes_directory [OF h1 h2, of m' w'] e t
  have "temp_dir m' = None \<and> timer m' = None \<and> dirs w' ''/tmp/s'' = None \<and> \<not> pending w' 0
     \<and> trace w' = [TimerCancel 0] @ unlink_events ''/tmp/s'' (names_of ?es)
          @ [Rmdir ''/tmp/s'', Log INFO (''Temporary directory '' @ ''/tmp/s'' @ '' deleted'')]"
    by simp
  with e show ?thesis
    by (simp add: unlink_events_def names_of_def plain_file_def path_join_def)
qed



section \<open>Paths and the allocation of names\<close>

lemma path_join_plain:
  "d \<noteq> [] \<Longrightarrow> last d \<noteq> CHR ''/'' \<Longrightarrow> CHR ''/'' \<notin> set n \<Longrightarrow> path_join d n = d @ ''/'' @ n"
  by (cases n) (auto simp: path_join_def)

lemma basename_child:
  assumes "CHR ''/'' \<notin> set n"
  shows "basename (d @ ''/'' @ n) = n"
proof -
  have "takeWhile (\<lambda>c. c \<noteq> CHR ''/'') (rev n @ CHR ''/'' # rev d)
      = rev n @ takeWhile (\<lambda>c. c \<noteq> CHR ''/'') (CHR ''/'' # rev d)"
    by (rule takeWhile_append2) (use assms in auto)
  then show ?thesis by (simp add: basename_def)
qed

lemma dirname_child:
  assumes "CHR ''/'' \<notin> set n"
  shows "dirname (d @ ''/'' @ n) = d"
proof -
  have "dropWhile (\<lambda>c. c \<noteq> CHR ''/'') (rev n @ CHR ''/'' # rev d)
      = dropWhile (\<lambda>c. c \<noteq> CHR ''/'') (CHR ''/'' # rev d)"
    by (rule dropWhile_append2) (use assms in auto)
  then show ?thesis by (simp add: dirname_def)
qed

lemma isabs_child: "isabs d \<Longrightarrow> isabs (d @ n)"
  by (cases d) (auto simp: isabs_def)

lemma os_open_excl_child:
  assumes "CHR ''/'' \<notin> set n"
  shows "os_open_excl (d @ ''/'' @ n) w =
     (case dirs w d of
        None \<Rightarrow> (Inl FileNotFoundError, w)
      | Some es \<Rightarrow>
          (if n \<in> set (names_of es) \<or> dirs w (d @ ''/'' @ n) \<noteq> None then (Inl FileExistsError, w)
           else (Inr (), w\<lparr>dirs := (dirs w)(d \<mapsto> es @ [new_file n w]),
                            trace := trace w @ [Create (d @ ''/'' @ n)]\<rparr>)))"
  using basename_child [OF assms, of d] dirname_child [OF assms, of d]
  by (simp add: os_open_excl_def new_file_def split: option.splits)

lemma mkstemp_inner_result:
  assumes "mkstemp_inner k d pre suf w = (Inr p, w')"
    and "d \<noteq> []" "last d \<noteq> CHR ''/''"
    and "\<forall>j. CHR ''/'' \<notin> set (rng w j)" "CHR ''/'' \<notin> set pre" "CHR ''/'' \<notin> set suf"
  shows "\<exists>j es. drawn w \<le> j \<and> dirs w d = Some es \<and> p = d @ ''/'' @ pre @ rng w j @ suf
           \<and> pre @ rng w j @ suf \<notin> set (names_of es)
           \<and> dirs w' = (dirs w)(d \<mapsto> es @ [new_file (pre @ rng w j @ suf) w])
           \<and> trace w' = trace w @ [Create p]"
  using assms
proof (induction k arbitrary: w)
  case 0
  then show ?case by simp
next
  case (Suc k)
  let ?w1 = "w\<lparr>drawn := Suc (drawn w)\<rparr>"
  let ?n = "pre @ rng w (drawn w) @ suf"
  from Suc.prems have n: "CHR ''/'' \<notin> set ?n" by simp
  with Suc.prems have pj: "path_join d ?n = d @ ''/'' @ ?n" by (simp add: path_join_plain)
  note oe = os_open_excl_child [OF n, of d ?w1]
  obtain r2 w2 where o: "os_open_excl (d @ ''/'' @ ?n) ?w1 = (r2, w2)"
    by (cases "os_open_excl (d @ ''/'' @ ?n) ?w1")
  show ?case
  proof (cases r2)
    case (Inl e)
    with o oe have w2: "w2 = ?w1" by (auto split: option.splits if_splits)
    from Suc.prems(1) pj o Inl have e: "e = FileExistsError"
      and "mkstemp_inner k d pre suf w2 = (Inr p, w')"
      by (auto simp: next_name_def split: if_splits)
    with w2 have "mkstemp_inner k d pre suf ?w1 = (Inr p, w')" by simp
    moreover have "\<forall>j. CHR ''/'' \<notin> set (rng ?w1 j)" using Suc.prems(4) by simp
    ultimately obtain j es where
      "drawn ?w1 \<le> j \<and> dirs ?w1 d = Some es \<and> p = d @ ''/'' @ pre @ rng ?w1 j @ suf
       \<and> pre @ rng ?w1 j @ suf \<notin> set (names_of es)
       \<and> dirs w' = (dirs ?w1)(d \<mapsto> es @ [new_file (pre @ rng ?w1 j @ suf) ?w1])
       \<and> trace w' = trace ?w1 @ [Create p]"
      using Suc.IH [of ?w1] Suc.prems(2,3,5,6) by blast
    then have "drawn w \<le> j \<and> dirs w d = Some es \<and> p = d @ ''/'' @ pre @ rng w j @ suf
           \<and> pre @ rng w j @ suf \<notin> set (names_of es)
           \<and> dirs w' = (dirs w)(d \<mapsto> es @ [new_file (pre @ rng w j @ suf) w])
           \<and> trace w' = trace w @ [Create p]"
      by (simp add: new_file_def)
    then show ?thesis by blast
  next
    case (Inr u)
    with Suc.prems(1) pj o have p: "p = d @ ''/'' @ ?n" and w': "w' = w2"
      by (auto simp: next_name_def)
    from o oe Inr obtain es where "dirs w d = Some es" "?n \<notin> set (names_of es)"
      "w2 = ?w1\<lparr>dirs := (dirs ?w1)(d \<mapsto> es @ [new_file ?n ?w1]),
                 trace := trace ?w1 @ [Create (d @ ''/'' @ ?n)]\<rparr>"
      by (auto split: option.splits if_splits)
    with p w' have "drawn w \<le> drawn w \<and> dirs w d = Some es
           \<and> p = d @ ''/'' @ pre @ rng w (drawn w) @ suf
           \<and> pre @ rng w (drawn w) @ suf \<notin> set (names_of es)
           \<and> dirs w' = (dirs w)(d \<mapsto> es @ [new_file (pre @ rng w (drawn w) @ suf) w])
           \<and> trace w' = trace w @ [Create p]"
      by (simp add: new_file_def)
    then show ?thesis by blast
  qed
qed


lemma mkstemp_inner_numeral:
  "mkstemp_inner (numeral v) dir pre suf w =
     (case next_name w of (nm, w1) \<Rightarrow>
        (case os_open_excl (path_join dir (pre @ nm @ suf)) w1 of
           (Inl e, w2) \<Rightarrow>
             (if e = FileExistsError then mkstemp_inner (pred_numeral v) dir pre suf w2 else (Inl e, w2))
         | (Inr _, w2) \<Rightarrow> (Inr (path_join dir (pre @ nm @ suf)), w2)))"
  by (simp add: numeral_eq_Suc)

section \<open>Requests\<close>

lemma request_temp_file_result:
  assumes "request_temp_file m prefix suffix w = (Inr p, m', w')"
    and "sanitize_dir (temp_dir m) w = d" "d \<noteq> []" "last d \<noteq> CHR ''/''"
    and "\<forall>j. CHR ''/'' \<notin> set (rng w j)"
    and "CHR ''/'' \<notin> set (sanitize_prefix prefix)" "CHR ''/'' \<notin> set (sanitize_suffix suffix)"
  shows "\<exists>es nm. dirs w d = Some es
           \<and> p = d @ ''/'' @ sanitize_prefix prefix @ nm @ sanitize_suffix suffix
           \<and> CHR ''/'' \<notin> set nm
           \<and> sanitize_prefix prefix @ nm @ sanitize_suffix suffix \<notin> set (names_of es)
           \<and> dirs w' = (dirs w)(d \<mapsto> es @ [new_file (sanitize_prefix prefix @ nm @ sanitize_suffix suffix) w])
           \<and> m' = m \<and> rng w' = rng w"
proof -
  from assms(1,2) have r: "mkstemp_inner TMP_MAX d (sanitize_prefix prefix) (sanitize_suffix suffix) w = (Inr p, w')"
    and m: "m' = m"
    by (auto simp: request_temp_file_def NamedTemporaryFile_def split: prod.splits)
  from mkstemp_inner_result [OF r assms(3-7)] obtain j es where
    "dirs w d = Some es \<and> p = d @ ''/'' @ sanitize_prefix prefix @ rng w j @ sanitize_suffix suffix
     \<and> sanitize_prefix prefix @ rng w j @ sanitize_suffix suffix \<notin> set (names_of es)
     \<and> dirs w' = (dirs w)(d \<mapsto> es @ [new_file (sanitize_prefix prefix @ rng w j @ sanitize_suffix suffix) w])"
    by blast
  with m mkstemp_inner_frame [OF r] assms(5) show ?thesis by blast
qed

lemma decorated_child:
  "CHR ''/'' \<notin> set (sanitize_prefix (fst a) @ nm @ sanitize_suffix (snd a)) \<Longrightarrow>
     decorated a (d @ ''/'' @ sanitize_prefix (fst a) @ nm @ sanitize_suffix (snd a))"
  using basename_child [of "sanitize_prefix (fst a) @ nm @ sanitize_suffix (snd a)" d]
  by (simp add: decorated_def Let_def)

lemma request_all_result:
  assumes "request_all m args w = (Inr ps, m', w')"
    and "temp_dir m = Some d" "dirs w d = Some es" "isabs d" "last d \<noteq> CHR ''/''"
    and "\<forall>j. CHR ''/'' \<notin> set (rng w j)"
    and "\<forall>a\<in>set args. CHR ''/'' \<notin> set (sanitize_prefix (fst a)) \<and> CHR ''/'' \<notin> set (sanitize_suffix (snd a))"
  shows "\<exists>news. dirs w' d = Some (es @ news) \<and> map ename news = map basename ps
           \<and> (\<forall>e\<in>set news. st_size e = 0)
           \<and> (\<forall>p\<in>set ps. isabs p \<and> dirname p = d \<and> basename p \<notin> set (names_of es))
           \<and> distinct (map basename ps) \<and> list_all2 decorated args ps \<and> m' = m"
  using assms
proof (induction args arbitrary: w ps es)
  case Nil
  then show ?case by simp
next
  case (Cons a as)
  obtain r1 m1 w1 where c: "request_temp_file m (fst a) (snd a) w = (r1, m1, w1)"
    by (cases "request_temp_file m (fst a) (snd a) w")
  with Cons.prems(1) obtain f where r1: "r1 = Inr f" by (cases r1) auto
  obtain r2 m2 w2 where c2: "request_all m1 as w1 = (r2, m2, w2)"
    by (cases "request_all m1 as w1")
  with Cons.prems(1) c r1 obtain fs where r2: "r2 = Inr fs" by (cases r2) auto
  from Cons.prems(1) c r1 c2 r2 have ps: "ps = f # fs" and fin: "m' = m2" "w' = w2" by auto
  from Cons.prems(4) have dne: "d \<noteq> []" by (auto simp: isabs_def)
  let ?pre = "sanitize_prefix (fst a)" and ?suf = "sanitize_suffix (snd a)"
  from Cons.prems(7) have aff: "CHR ''/'' \<notin> set ?pre" "CHR ''/'' \<notin> set ?suf" by simp_all
  have sd: "sanitize_dir (temp_dir m) w = d" using Cons.prems(2) by (simp add: sanitize_dir_def)
  from request_temp_file_result [OF c [unfolded r1] sd dne Cons.prems(5,6) aff] Cons.prems(3)
  obtain nm where f: "f = d @ ''/'' @ ?pre @ nm @ ?suf" and nm: "CHR ''/'' \<notin> set nm"
    and fresh: "?pre @ nm @ ?suf \<notin> set (names_of es)"
    and d1: "dirs w1 = (dirs w)(d \<mapsto> es @ [new_file (?pre @ nm @ ?suf) w])"
    and m1: "m1 = m" and rng1: "rng w1 = rng w"
    by auto
  let ?n = "?pre @ nm @ ?suf"
  from aff nm have nn: "CHR ''/'' \<notin> set ?n" by simp
  have bf: "basename f = ?n" "dirname f = d" "isabs f" "decorated a f"
    using basename_child [OF nn, of d] dirname_child [OF nn, of d] isabs_child [OF Cons.prems(4)]
      decorated_child [OF nn, of d]
    by (simp_all add: f)
  have "\<exists>news. dirs w' d = Some ((es @ [new_file ?n w]) @ news) \<and> map ename news = map basename fs
           \<and> (\<forall>e\<in>set news. st_size e = 0)
           \<and> (\<forall>p\<in>set fs. isabs p \<and> dirname p = d \<and> basename p \<notin> set (names_of (es @ [new_file ?n w])))
           \<and> distinct (map basename fs) \<and> list_all2 decorated as fs \<and> m' = m"
  proof (rule Cons.IH)
    show "request_all m as w1 = (Inr fs, m', w')" using c2 r2 m1 fin by simp
    show "dirs w1 d = Some (es @ [new_file ?n w])" using d1 by simp
    show "\<forall>j. CHR ''/'' \<notin> set (rng w1 j)" using Cons.prems(6) rng1 by simp
    show "\<forall>a\<in>set as. CHR ''/'' \<notin> set (sanitize_prefix (fst a)) \<and> CHR ''/'' \<notin> set (sanitize_suffix (snd a))"
      using Cons.prems(7) by simp
  qed (use Cons.prems in simp_all)
  then obtain news where n: "dirs w' d = Some ((es @ [new_file ?n w]) @ news)"
    "map ename news = map basename fs" "\<forall>e\<in>set news. st_size e = 0"
    "\<forall>p\<in>set fs. isabs p \<and> dirname p = d \<and> basename p \<notin> set (names_of (es @ [new_file ?n w]))"
    "distinct (map basename fs)" "list_all2 decorated as fs" "m' = m"
    by blast
  from n(4) have nf: "\<forall>p\<in>set fs. basename p \<noteq> ?n \<and> basename p \<notin> set (names_of es)"
    by (auto simp: names_of_def new_file_def)
  have "dirs w' d = Some (es @ (new_file ?n w # news))
      \<and> map ename (new_file ?n w # news) = map basename ps
      \<and> (\<forall>e\<in>set (new_file ?n w # news). st_size e = 0)
      \<and> (\<forall>p\<in>set ps. isabs p \<and> dirname p = d \<and> basename p \<notin> set (names_of es))
      \<and> distinct (map basename ps) \<and> list_all2 decorated (a # as) ps \<and> m' = m"
    using n nf bf fresh fin ps by (auto simp: new_file_def)
  then show ?case by blast
qed

lemmas run_simps =
  request_temp_file_def NamedTemporaryFile_def TMP_MAX_def mkstemp_inner_numeral
  sanitize_dir_def sanitize_prefix_def sanitize_suffix_def next_name_def path_join_def
  os_open_excl_def dirname_def basename_def names_of_def
  manager0_def manager1_def world1_def world0_def plain_file_def locked_file_def dir_entry_def

text \<open>
  C4, as stated, fails. The prefix is handed to \<^verbatim>\<open>tempfile\<close> as it is, joined to the
  directory by \<^verbatim>\<open>os.path.join\<close>, which drops the directory when its second argument is
  absolute: with the prefix \<^verbatim>\<open>/tmp/x\<close> the file is created in \<^verbatim>\<open>/tmp\<close>, and the path
  returned does not lie in the scratch directory, which stays empty.
\<close>

theorem request_temp_file_unique_counterexample:
  "temp_dir manager1 = Some ''/tmp/s''
   \<and> dirs (world1 []) ''/tmp/s'' = Some []
   \<and> fst (request_temp_file manager1 (Some ''/tmp/x'') None (world1 [])) = Inr ''/tmp/xaa''
   \<and> dirname ''/tmp/xaa'' = ''/tmp''
   \<and> dirs (snd (snd (request_temp_file manager1 (Some ''/tmp/x'') None (world1 [])))) ''/tmp/s''
       = Some []
   \<and> dirs (snd (snd (request_temp_file manager1 (Some ''/tmp/x'') None (world1 [])))) ''/tmp''
       = Some [dir_entry ''s'' 0, new_file ''xaa'' (world1 [])]"
  by (simp add: run_simps new_file_def)

text \<open>
  C4, amended. On an active manager (its scratch directory \<open>d\<close> is set, absolute and
  exists) a sequence of calls of \<^verbatim>\<open>request_temp_file\<close> whose prefixes and suffixes hold no
  path separator returns paths that are pairwise distinct; each is absolute, lies directly
  inside \<open>d\<close>, carries the prefix and suffix asked for, and names a file that was not
  in the directory before and is in it afterwards, empty.
\<close>

theorem request_temp_file_unique:
  assumes "request_all m args w = (Inr ps, m', w')"
    and "temp_dir m = Some d" "dirs w d = Some es" "isabs d" "last d \<noteq> CHR ''/''"
    and "\<forall>j. CHR ''/'' \<notin> set (rng w j)"
    and "\<forall>a\<in>set args. CHR ''/'' \<notin> set (sanitize_prefix (fst a)) \<and> CHR ''/'' \<notin> set (sanitize_suffix (snd a))"
  shows "distinct ps \<and> length ps = length args
       \<and> (\<forall>i<length ps. isabs (ps ! i) \<and> dirname (ps ! i) = d \<and> decorated (args ! i) (ps ! i)
             \<and> basename (ps ! i) \<notin> set (names_of es)
             \<and> (\<exists>es'. dirs w' d = Some es'
                   \<and> (\<exists>e\<in>set es'. ename e = basename (ps ! i) \<and> st_size e = 0)))"
proof -
  from request_all_result [OF assms] obtain news where n:
    "dirs w' d = Some (es @ news)" "map ename news = map basename ps"
    "\<forall>e\<in>set news. st_size e = 0"
    "\<forall>p\<in>set ps. isabs p \<and> dirname p = d \<and> basename p \<notin> set (names_of es)"
    "distinct (map basename ps)" "list_all2 decorated args ps"
    by blast
  from n(5) have "distinct ps" by (simp add: distinct_map)
  moreover from n(6) have len: "length ps = length args" by (simp add: list_all2_lengthD)
  moreover have "isabs (ps ! i) \<and> dirname (ps ! i) = d \<and> decorated (args ! i) (ps ! i)
             \<and> basename (ps ! i) \<notin> set (names_of es)
             \<and> (\<exists>es'. dirs w' d = Some es'
                   \<and> (\<exists>e\<in>set es'. ename e = basename (ps ! i) \<and> st_size e = 0))"
    if i: "i < length ps" for i
  proof -
    from n(2) have ln: "length news = length ps" by (metis length_map)
    with i n(2) have "ename (news ! i) = basename (ps ! i)" by (metis nth_map)
    moreover from i ln n(3) have "news ! i \<in> set news" "st_size (news ! i) = 0" by simp_all
    ultimately have "\<exists>e\<in>set (es @ news). ename e = basename (ps ! i) \<and> st_size e = 0" by auto
    moreover from n(6) i have "decorated (args ! i) (ps ! i)" by (simp add: list_all2_nthD2)
    ultimately show ?thesis using n(1,4) i by simp
  qed
  ultimately show ?thesis by blast
qed

theorem request_temp_file_unique_witness:
  "\<exists>m' w' es' e.
     request_all manager1 [(None, Some ''.jpg''), (None, None), (Some ''x'', Some ''.mp4'')]
         (world1 [plain_file ''tmpaaa'' 5])
       = (Inr [''/tmp/s/tmpaa.jpg'', ''/tmp/s/tmpaaaa'', ''/tmp/s/xaaaaa.mp4''], m', w')
     \<and> distinct [''/tmp/s/tmpaa.jpg'', ''/tmp/s/tmpaaaa'', ''/tmp/s/xaaaaa.mp4'']
     \<and> isabs ''/tmp/s/tmpaaaa'' \<and> dirname ''/tmp/s/tmpaaaa'' = ''/tmp/s''
     \<and> decorated (Some ''x'', Some ''.mp4'') ''/tmp/s/xaaaaa.mp4''
     \<and> dirs w' ''/tmp/s'' = Some es' \<and> e \<in> set es' \<and> ename e = basename ''/tmp/s/tmpaaaa''
     \<and> st_size e = 0"
proof -
  let ?args = "[(None, Some ''.jpg''), (None, None), (Some ''x'', Some ''.mp4'')]"
  let ?w = "world1 [plain_file ''tmpaaa'' 5]"
  let ?ps = "[''/tmp/s/tmpaa.jpg'', ''/tmp/s/tmpaaaa'', ''/tmp/s/xaaaaa.mp4'']"
  have run: "fst (request_all manager1 ?args ?w) = Inr ?ps"
    by (simp add: run_simps)
  then obtain m' w' where r: "request_all manager1 ?args ?w = (Inr ?ps, m', w')"
    by (cases "request_all manager1 ?args ?w") auto
  have h: "temp_dir manager1 = Some ''/tmp/s''" "dirs ?w ''/tmp/s'' = Some [plain_file ''tmpaaa'' 5]"
    "isabs ''/tmp/s''" "last ''/tmp/s'' \<noteq> CHR ''/''" "\<forall>j. CHR ''/'' \<notin> set (rng ?w j)"
    "\<forall>a\<in>set ?args. CHR ''/'' \<notin> set (sanitize_prefix (fst a)) \<and> CHR ''/'' \<notin> set (sanitize_suffix (snd a))"
    by (simp_all add: manager1_def world1_def world0_def isabs_def sanitize_prefix_def sanitize_suffix_def)
  note u = request_temp_file_unique [OF r h]
  from u have d: "distinct ?ps" by blast
  note u' = u [THEN conjunct2, THEN conjunct2, rule_format]
  from u' [of 1] have "isabs (?ps ! 1) \<and> dirname (?ps ! 1) = ''/tmp/s''
      \<and> (\<exists>es'. dirs w' ''/tmp/s'' = Some es' \<and> (\<exists>e\<in>set es'. ename e = basename (?ps ! 1) \<and> st_size e = 0))"
    by simp
  moreover from u' [of 2] have "decorated (?args ! 2) (?ps ! 2)" by simp
  ultimately show ?thesis using r d by auto
qed

text \<open>
  C10. \<^verbatim>\<open>request_temp_file\<close> leaves the manager as it was, for every prefix and suffix:
  the scratch directory path, the timer handle and both configuration fields are
  unchanged, and so is every timer of the environment.
\<close>

theorem request_temp_file_frame:
  "fst (snd (request_temp_file m prefix suffix w)) = m
   \<and> timers (snd (snd (request_temp_file m prefix suffix w))) = timers w"
  by (auto simp: request_temp_file_def NamedTemporaryFile_def split: prod.splits
           dest: mkstemp_inner_frame)

theorem request_temp_file_frame_witness:
  "fst (request_temp_file manager1 None (Some ''.jpg'') (world1 [])) = Inr ''/tmp/s/tmpaa.jpg''
   \<and> fst (snd (request_temp_file manager1 None (Some ''.jpg'') (world1 []))) = manager1
   \<and> timers (snd (snd (request_temp_file manager1 None (Some ''.jpg'') (world1 [])))) = [(60, Pending)]"
proof -
  have "fst (request_temp_file manager1 None (Some ''.jpg'') (world1 [])) = Inr ''/tmp/s/tmpaa.jpg''"
    by (simp add: run_simps)
  moreover have "timers (world1 []) = [(60, Pending)]" by (simp add: world1_def world0_def)
  ultimately show ?thesis
    using request_temp_file_frame [of manager1 None "Some ''.jpg''" "world1 []"] by simp
qed




section \<open>The sweep\<close>

lemma lookup_entry_distinct:
  "distinct (names_of (a @ e # b)) \<Longrightarrow> lookup_entry (ename e) (a @ e # b) = Some e"
  by (induction a) (auto simp: lookup_entry_def names_of_def)

lemma filter_name_distinct:
  assumes "distinct (names_of (a @ e # b))"
  shows "filter (\<lambda>x. ename x \<noteq> ename e) (a @ e # b) = a @ b"
proof -
  from assms have "ename e \<notin> ename ` set a" "ename e \<notin> ename ` set b"
    by (auto simp: names_of_def)
  then have "\<forall>x\<in>set a. ename x \<noteq> ename e" "\<forall>x\<in>set b. ename x \<noteq> ename e"
    by (metis imageI)+
  then have "filter (\<lambda>x. ename x \<noteq> ename e) a = a" "filter (\<lambda>x. ename x \<noteq> ename e) b = b"
    by (simp_all add: filter_id_conv)
  then show ?thesis by simp
qed

lemma os_unlink_ok:
  assumes "dirs w d = Some (a @ e # b)" "distinct (names_of (a @ e # b))" "unlink_err e = None"
  shows "os_unlink d (ename e) w =
     (Inr (), w\<lparr>dirs := (dirs w)(d \<mapsto> a @ b), trace := trace w @ [Unlink (path_join d (ename e))]\<rparr>)"
  using assms lookup_entry_distinct [OF assms(2)] filter_name_distinct [OF assms(2)]
  by (simp add: os_unlink_def)

lemma os_unlink_fails:
  assumes "dirs w d = Some (a @ e # b)" "distinct (names_of (a @ e # b))" "unlink_err e = Some err"
  shows "os_unlink d (ename e) w = (Inl err, w)"
  using assms lookup_entry_distinct [OF assms(2)] by (simp add: os_unlink_def)

lemma os_stat_ok:
  assumes "dirs w d = Some (a @ e # b)" "distinct (names_of (a @ e # b))" "stat_err e = None"
  shows "os_stat d (ename e) w = Inr (st_mtime e)"
  using assms lookup_entry_distinct [OF assms(2)] by (simp add: os_stat_def)

lemma remove_old_loop_ok:
  assumes "dirs w d = Some (kept @ es @ rest)" "distinct (names_of (kept @ es @ rest))"
    and "\<forall>e\<in>set es. stat_err e = None \<and> unlink_err e = None"
  shows "\<exists>w'. remove_old_loop m d (names_of es) w = (Inr (), w')
           \<and> dirs w' = (dirs w)(d \<mapsto> kept @ kept_by_sweep m (clock w) (reads w) es @ rest)
           \<and> reads w' = reads w + length es \<and> clock w' = clock w \<and> timers w' = timers w
           \<and> trace w' = trace w @ sweep_events m d (clock w) (reads w) es"
  using assms
proof (induction es arbitrary: w kept)
  case Nil
  then show ?case by (auto simp: names_of_def fun_eq_iff)
next
  case (Cons e es)
  let ?w1 = "w\<lparr>reads := Suc (reads w)\<rparr>"
  have d1: "dirs ?w1 d = Some (kept @ e # es @ rest)" using Cons.prems(1) by simp
  have di: "distinct (names_of (kept @ e # es @ rest))" using Cons.prems(2) by simp
  from Cons.prems(3) have ok: "stat_err e = None" "unlink_err e = None" by simp_all
  have st: "os_stat d (ename e) ?w1 = Inr (st_mtime e)" by (rule os_stat_ok [OF d1 di ok(1)])
  have rest_ok: "\<forall>e\<in>set es. stat_err e = None \<and> unlink_err e = None" using Cons.prems(3) by simp
  show ?case
  proof (cases "float_gt (float_sub (clock w (reads w)) (st_mtime e)) (remove_timeout m)")
    case True
    let ?w2 = "?w1\<lparr>dirs := (dirs ?w1)(d \<mapsto> kept @ es @ rest),
                   trace := trace ?w1 @ [Unlink (path_join d (ename e))]\<rparr>"
    let ?w3 = "logger INFO (''Removed old file: '' @ path_join d (ename e)) ?w2"
    have ul: "os_unlink d (ename e) ?w1 = (Inr (), ?w2)" by (rule os_unlink_ok [OF d1 di ok(2)])
    have "dirs ?w3 d = Some (kept @ es @ rest)" by simp
    moreover have "distinct (names_of (kept @ es @ rest))" using di by (simp add: names_of_def)
    ultimately obtain w' where
      "remove_old_loop m d (names_of es) ?w3 = (Inr (), w')
       \<and> dirs w' = (dirs ?w3)(d \<mapsto> kept @ kept_by_sweep m (clock ?w3) (reads ?w3) es @ rest)
       \<and> reads w' = reads ?w3 + length es \<and> clock w' = clock ?w3 \<and> timers w' = timers ?w3
       \<and> trace w' = trace ?w3 @ sweep_events m d (clock ?w3) (reads ?w3) es"
      using Cons.IH [of ?w3 kept] rest_ok by blast
    with True st ul show ?thesis by (auto simp: names_of_def time_time_def fun_eq_iff)
  next
    case False
    have "dirs ?w1 d = Some ((kept @ [e]) @ es @ rest)" using d1 by simp
    moreover have "distinct (names_of ((kept @ [e]) @ es @ rest))" using di by simp
    ultimately obtain w' where
      "remove_old_loop m d (names_of es) ?w1 = (Inr (), w')
       \<and> dirs w' = (dirs ?w1)(d \<mapsto> (kept @ [e]) @ kept_by_sweep m (clock ?w1) (reads ?w1) es @ rest)
       \<and> reads w' = reads ?w1 + length es \<and> clock w' = clock ?w1 \<and> timers w' = timers ?w1
       \<and> trace w' = trace ?w1 @ sweep_events m d (clock ?w1) (reads ?w1) es"
      using Cons.IH [of ?w1 "kept @ [e]"] rest_ok by blast
    with False st show ?thesis by (auto simp: names_of_def time_time_def fun_eq_iff)
  qed
qed

lemma remove_old_loop_append:
  "remove_old_loop m d (xs @ ys) w =
     (case remove_old_loop m d xs w of
        (Inl e, w1) \<Rightarrow> (Inl e, w1)
      | (Inr _, w1) \<Rightarrow> remove_old_loop m d ys w1)"
  by (induction xs arbitrary: w) (auto split: prod.splits sum.splits)

lemma remove_all_loop_append:
  "remove_all_loop d (xs @ ys) w =
     (case remove_all_loop d xs w of
        (Inl e, w1) \<Rightarrow> (Inl e, w1)
      | (Inr _, w1) \<Rightarrow> remove_all_loop d ys w1)"
  by (induction xs arbitrary: w) (auto split: prod.splits sum.splits)

lemma remove_all_loop_prefix:
  assumes "dirs w d = Some (es @ rest)" "distinct (names_of (es @ rest))"
    and "\<forall>e\<in>set es. unlink_err e = None"
  shows "\<exists>w'. remove_all_loop d (names_of es) w = (Inr (), w')
           \<and> dirs w' = (dirs w)(d \<mapsto> rest) \<and> trace w' = trace w @ unlink_events d (names_of es)
           \<and> timers w' = timers w"
  using assms
proof (induction es arbitrary: w)
  case Nil
  then show ?case by (auto simp: names_of_def fun_eq_iff unlink_events_def)
next
  case (Cons e es)
  let ?w1 = "w\<lparr>dirs := (dirs w)(d \<mapsto> [] @ es @ rest),
                 trace := trace w @ [Unlink (path_join d (ename e))]\<rparr>"
  let ?w2 = "logger DEBUG (''Removed file: '' @ path_join d (ename e)) ?w1"
  from Cons.prems have ul: "os_unlink d (ename e) w = (Inr (), ?w1)"
    by (intro os_unlink_ok) simp_all
  have "dirs ?w2 d = Some (es @ rest)" by simp
  moreover have "distinct (names_of (es @ rest))" using Cons.prems(2) by (simp add: names_of_def)
  moreover have "\<forall>e\<in>set es. unlink_err e = None" using Cons.prems(3) by simp
  ultimately obtain w' where
    "remove_all_loop d (names_of es) ?w2 = (Inr (), w')
     \<and> dirs w' = (dirs ?w2)(d \<mapsto> rest) \<and> trace w' = trace ?w2 @ unlink_events d (names_of es)
     \<and> timers w' = timers ?w2"
    using Cons.IH [of ?w2] by blast
  with ul show ?case by (auto simp: names_of_def unlink_events_def fun_eq_iff)
qed

lemma kept_by_sweep_subset: "set (kept_by_sweep m c k es) \<subseteq> set es"
  by (induction es arbitrary: k) auto



lemma start_periodic_check_eq:
  "start_periodic_check m w =
     (Inr (), m\<lparr>timer := Some (length (timers w))\<rparr>,
      w\<lparr>timers := timers w @ [(check_interval m, Pending)],
        trace := trace w @ [TimerStart (length (timers w))]\<rparr>)"
  by (simp add: start_periodic_check_def timer_start_def)

lemmas sweep_simps =
  remove_old_files_def remove_old_for_def iterdir_def time_time_def os_stat_def os_unlink_def
  lookup_entry_def names_of_def start_periodic_check_def timer_start_def logger_def path_join_def
  manager1_def world1_def world0_def plain_file_def locked_file_def dir_entry_def float_gt_sub_512

lemmas exit_simps =
  exit_def stop_periodic_check_def timer_cancel_def remove_temp_dir_def iterdir_def
  os_unlink_def os_rmdir_def lookup_entry_def names_of_def logger_def path_join_def
  dirname_def basename_def
  manager1_def world1_def world0_def plain_file_def locked_file_def dir_entry_def

lemma remove_temp_dir_fails:
  assumes "temp_dir m = Some d" "dirs w d = Some (pre @ e # post)"
    and "distinct (names_of (pre @ e # post))"
    and "\<forall>x\<in>set pre. unlink_err x = None" "unlink_err e = Some err"
  shows "\<exists>w'. remove_temp_dir m w = (Inl err, m, w') \<and> dirs w' d = Some (e # post)
           \<and> trace w' = trace w @ unlink_events d (names_of pre) \<and> timers w' = timers w"
proof -
  from remove_all_loop_prefix [OF assms(2,3,4)] obtain w1 where
    l: "remove_all_loop d (names_of pre) w = (Inr (), w1)"
    and w1: "dirs w1 = (dirs w)(d \<mapsto> e # post)" "trace w1 = trace w @ unlink_events d (names_of pre)"
      "timers w1 = timers w"
    by blast
  have "dirs w1 d = Some ([] @ e # post)" using w1 by simp
  moreover have "distinct (names_of ([] @ e # post))" using assms(3) by (simp add: names_of_def)
  ultimately have "os_unlink d (ename e) w1 = (Inl err, w1)"
    using assms(5) by (rule os_unlink_fails)
  then have "remove_all_loop d (names_of (pre @ e # post)) w = (Inl err, w1)"
    using l by (simp add: names_of_def remove_all_loop_append)
  with assms(1,2) w1 show ?thesis by (simp add: remove_temp_dir_def iterdir_def)
qed

lemma exit_fails:
  assumes "temp_dir m = Some d" "dirs w d = Some (pre @ e # post)"
    and "distinct (names_of (pre @ e # post))"
    and "\<forall>x\<in>set pre. unlink_err x = None" "unlink_err e = Some err"
  shows "\<exists>w'. exit m w = (Inl err, m\<lparr>timer := None\<rparr>, w') \<and> dirs w' d = Some (e # post)
           \<and> trace w' = trace w @ (case timer m of None \<Rightarrow> [] | Some h \<Rightarrow> [TimerCancel h])
                @ unlink_events d (names_of pre)"
proof (cases "timer m")
  case None
  then have eq: "m\<lparr>timer := None\<rparr> = m" by simp
  from None assms(1) have "exit m w = remove_temp_dir m w" by (simp add: exit_def)
  with None remove_temp_dir_fails [OF assms] show ?thesis unfolding eq by auto
next
  case (Some h)
  let ?m1 = "m\<lparr>timer := None\<rparr>" and ?w1 = "timer_cancel h w"
  have "temp_dir ?m1 = Some d" "dirs ?w1 d = Some (pre @ e # post)"
    using assms(1,2) by (simp_all add: timer_cancel_simps)
  from remove_temp_dir_fails [OF this assms(3-5)] Some assms(1) show ?thesis
    by (auto simp: exit_def stop_periodic_check_def timer_cancel_simps)
qed

lemma remove_old_files_fails:
  assumes "temp_dir m = Some d" "dirs w d = Some (pre @ e # post)"
    and "distinct (names_of (pre @ e # post))"
    and "\<forall>x\<in>set pre. stat_err x = None \<and> unlink_err x = None" "unlink_err e = Some err"
    and "stat_err e = None"
      "float_gt (float_sub (clock w (reads w + length pre)) (st_mtime e)) (remove_timeout m)"
  shows "\<exists>w'. remove_old_files m w = (Inl err, m, w')
           \<and> dirs w' d = Some (kept_by_sweep m (clock w) (reads w) pre @ e # post)
           \<and> timers w' = timers w
           \<and> trace w' = trace w @ sweep_events m d (clock w) (reads w) pre"
proof -
  let ?k = "kept_by_sweep m (clock w) (reads w) pre"
  from remove_old_loop_ok [of w d "[]" pre "e # post" m] assms(2,3,4) obtain w1 where
    l: "remove_old_loop m d (names_of pre) w = (Inr (), w1)"
    and w1: "dirs w1 = (dirs w)(d \<mapsto> ?k @ e # post)" "reads w1 = reads w + length pre"
      "clock w1 = clock w" "timers w1 = timers w"
      "trace w1 = trace w @ sweep_events m d (clock w) (reads w) pre"
    by auto
  let ?w2 = "w1\<lparr>reads := Suc (reads w1)\<rparr>"
  have d2: "dirs ?w2 d = Some (?k @ e # post)" using w1 by simp
  have "set ?k \<subseteq> set pre" by (rule kept_by_sweep_subset)
  moreover have "distinct (names_of ?k)"
  proof -
    have "distinct (names_of xs) \<Longrightarrow> distinct (names_of (kept_by_sweep m c k xs))" for xs c k
    proof (induction xs arbitrary: k)
      case Nil
      then show ?case by simp
    next
      case (Cons x xs)
      with kept_by_sweep_subset [of m c "Suc k" xs] show ?case
        by (auto simp: names_of_def)
    qed
    with assms(3) show ?thesis by (simp add: names_of_def)
  qed
  ultimately have di: "distinct (names_of (?k @ e # post))"
    using assms(3) unfolding names_of_def map_append list.map distinct_append distinct.simps set_simps
    by (simp add: image_iff subset_iff disjoint_iff) blast
  have st: "os_stat d (ename e) ?w2 = Inr (st_mtime e)" by (rule os_stat_ok [OF d2 di assms(6)])
  have ul: "os_unlink d (ename e) ?w2 = (Inl err, ?w2)" by (rule os_unlink_fails [OF d2 di assms(5)])
  from st ul assms(7) w1 have "remove_old_loop m d (ename e # names_of post) w1 = (Inl err, ?w2)"
    by (simp add: time_time_def)
  with l have "remove_old_loop m d (names_of (pre @ e # post)) w = (Inl err, ?w2)"
    by (simp add: names_of_def remove_old_loop_append)
  with assms(1,2) d2 w1 show ?thesis
    by (simp add: remove_old_files_def remove_old_for_def iterdir_def)
qed




text \<open>
  C7, as stated, fails. A file that cannot be unlinked ends the teardown and the sweep
  with its error: the file after it is never attempted, nothing is logged, and the
  directory stays.
\<close>

theorem deletion_failure_counterexample:
  "fst (exit manager1 (world1 [locked_file ''a'' 0, plain_file ''b'' 0])) = Inl PermissionError
   \<and> dirs (snd (snd (exit manager1 (world1 [locked_file ''a'' 0, plain_file ''b'' 0])))) ''/tmp/s''
       = Some [locked_file ''a'' 0, plain_file ''b'' 0]
   \<and> trace (snd (snd (exit manager1 (world1 [locked_file ''a'' 0, plain_file ''b'' 0]))))
       = [TimerCancel 0]
   \<and> fst (remove_old_files manager1 (world1 [locked_file ''a'' 0, plain_file ''b'' 0]))
       = Inl PermissionError
   \<and> dirs (snd (snd (remove_old_files manager1 (world1 [locked_file ''a'' 0, plain_file ''b'' 0]))))
        ''/tmp/s'' = Some [locked_file ''a'' 0, plain_file ''b'' 0]
   \<and> trace (snd (snd (remove_old_files manager1 (world1 [locked_file ''a'' 0, plain_file ''b'' 0]))))
       = []"
  by (simp add: sweep_simps exit_simps)

text \<open>
  C7, amended. Neither pass handles a deletion failure. When the entries before \<open>e\<close> in
  the listing can be deleted and the unlink of \<open>e\<close> raises \<open>err\<close>, the teardown ends with
  \<open>err\<close> after unlinking those entries: \<open>e\<close> and every entry after it remain, the
  directory remains, the scratch directory stays set, and nothing but the removals done
  is logged. A sweep that finds \<open>e\<close> old enough (the double difference of the reading
  taken for it and its modification time is greater than the retention) ends with \<open>err\<close>
  in the same way, with \<open>e\<close> and the entries after it untouched and no new timer started.
\<close>

theorem deletion_failure_aborts_pass:
  assumes "temp_dir m = Some d" "dirs w d = Some (pre @ e # post)"
    and "distinct (names_of (pre @ e # post))"
    and "\<forall>x\<in>set pre. stat_err x = None \<and> unlink_err x = None" "unlink_err e = Some err"
  shows "(\<exists>w'. exit m w = (Inl err, m\<lparr>timer := None\<rparr>, w') \<and> dirs w' d = Some (e # post)
            \<and> trace w' = trace w @ (case timer m of None \<Rightarrow> [] | Some h \<Rightarrow> [TimerCancel h])
                 @ unlink_events d (names_of pre))
       \<and> (stat_err e = None
            \<and> float_gt (float_sub (clock w (reads w + length pre)) (st_mtime e)) (remove_timeout m)
          \<longrightarrow>
            (\<exists>w'. remove_old_files m w = (Inl err, m, w')
               \<and> dirs w' d = Some (kept_by_sweep m (clock w) (reads w) pre @ e # post)
               \<and> timers w' = timers w
               \<and> trace w' = trace w @ sweep_events m d (clock w) (reads w) pre))"
proof -
  from assms(4) have "\<forall>x\<in>set pre. unlink_err x = None" by simp
  from exit_fails [OF assms(1-3) this assms(5)] remove_old_files_fails [OF assms]
  show ?thesis by blast
qed

theorem deletion_failure_aborts_pass_witness:
  "(\<exists>m' w'. exit manager1 (world1 [plain_file ''a'' 0, locked_file ''b'' 0, plain_file ''c'' 0])
        = (Inl PermissionError, m', w')
      \<and> dirs w' ''/tmp/s'' = Some [locked_file ''b'' 0, plain_file ''c'' 0])
   \<and> (\<exists>m' w'. remove_old_files manager1 (world1 [plain_file ''a'' 0, locked_file ''b'' 0, plain_file ''c'' 0])
        = (Inl PermissionError, m', w')
      \<and> dirs w' ''/tmp/s'' = Some [locked_file ''b'' 0, plain_file ''c'' 0]
      \<and> timers w' = [(60, Pending)]
      \<and> trace w' = [Unlink ''/tmp/s/a'', Log INFO ''Removed old file: /tmp/s/a''])"
proof -
  let ?w = "world1 [plain_file ''a'' 0, locked_file ''b'' 0, plain_file ''c'' 0]"
  have h: "temp_dir manager1 = Some ''/tmp/s''"
    "dirs ?w ''/tmp/s'' = Some ([plain_file ''a'' 0] @ locked_file ''b'' 0 # [plain_file ''c'' 0])"
    "distinct (names_of ([plain_file ''a'' 0] @ locked_file ''b'' 0 # [plain_file ''c'' 0]))"
    "\<forall>x\<in>set [plain_file ''a'' 0]. stat_err x = None \<and> unlink_err x = None"
    "unlink_err (locked_file ''b'' 0) = Some PermissionError"
    by (simp_all add: manager1_def world1_def world0_def names_of_def plain_file_def locked_file_def)
  have o: "stat_err (locked_file ''b'' 0) = None
      \<and> float_gt (float_sub (clock ?w (reads ?w + length [plain_file ''a'' 0]))
            (st_mtime (locked_file ''b'' 0))) (remove_timeout manager1)"
    "kept_by_sweep manager1 (clock ?w) (reads ?w) [plain_file ''a'' 0] = []"
    "timers ?w = [(60, Pending)]" "trace ?w = []"
    "sweep_events manager1 ''/tmp/s'' (clock ?w) (reads ?w) [plain_file ''a'' 0]
       = [Unlink ''/tmp/s/a'', Log INFO ''Removed old file: /tmp/s/a'']"
    by (simp_all add: manager1_def world1_def world0_def plain_file_def locked_file_def
        path_join_def float_gt_sub_512)
  from deletion_failure_aborts_pass [OF h] o show ?thesis by auto
qed

section \<open>Timers, the exit hook and the guarded block\<close>

lemma remove_old_loop_frame:
  "remove_old_loop m d ns w = (r, w') \<Longrightarrow> timers w' = timers w \<and> atexit w' = atexit w"
proof (induction ns arbitrary: w)
  case Nil
  then show ?case by simp
next
  case (Cons n ns)
  let ?w1 = "w\<lparr>reads := Suc (reads w)\<rparr>"
  show ?case
  proof (cases "os_stat d n ?w1")
    case (Inl e)
    with Cons.prems show ?thesis by (auto simp: time_time_def)
  next
    case (Inr mt)
    show ?thesis
    proof (cases "float_gt (float_sub (clock w (reads w)) mt) (remove_timeout m)")
      case False
      with Cons.prems Inr have "remove_old_loop m d ns ?w1 = (r, w')"
        by (simp add: time_time_def)
      from Cons.IH [OF this] show ?thesis by simp
    next
      case True
      obtain r2 w2 where u: "os_unlink d n ?w1 = (r2, w2)" by (cases "os_unlink d n ?w1")
      note f = os_unlink_frame [OF u]
      show ?thesis
      proof (cases r2)
        case (Inl e)
        with Cons.prems Inr True u f show ?thesis by (simp add: time_time_def)
      next
        case (Inr x)
        with Cons.prems \<open>os_stat d n ?w1 = Inr mt\<close> True u
        have "remove_old_loop m d ns (logger INFO (''Removed old file: '' @ path_join d n) w2) = (r, w')"
          by (simp add: time_time_def)
        from Cons.IH [OF this] f show ?thesis by simp
      qed
    qed
  qed
qed

lemma remove_old_for_frame:
  "remove_old_for m w = (r, m', w') \<Longrightarrow> m' = m \<and> timers w' = timers w"
  by (auto simp: remove_old_for_def split: option.splits sum.splits prod.splits
           dest: remove_old_loop_frame)

lemma remove_temp_dir_frame:
  "remove_temp_dir m w = (r, m', w') \<Longrightarrow> timers w' = timers w"
  by (auto simp: remove_temp_dir_def split: option.splits sum.splits prod.splits)
    (metis remove_all_loop_frame os_rmdir_frame)+

lemma timer_cancel_length: "length (timers (timer_cancel h w)) = length (timers w)"
  by (simp add: timer_cancel_def)

lemma exit_timers_length:
  "exit m w = (r, m', w') \<Longrightarrow> length (timers w') = length (timers w)"
  by (auto simp: exit_def stop_periodic_check_def timer_cancel_length
           split: if_splits option.splits dest: remove_temp_dir_frame)

lemma pending_started:
  "pending (w\<lparr>timers := timers w @ [(iv, Pending)], trace := t\<rparr>) (length (timers w))"
  by (simp add: pending_def)

lemma os_mkdir_result:
  "os_mkdir p w = (Inr u, w') \<Longrightarrow>
     dirs w p = None \<and> dirs w' p = Some [] \<and> timers w' = timers w"
  by (auto simp: os_mkdir_def split: option.splits if_splits)

lemma os_mkdir_failure: "os_mkdir p w = (Inl e, w') \<Longrightarrow> w' = w"
  by (auto simp: os_mkdir_def split: option.splits if_splits)

text \<open>
  A subdirectory made inside the scratch directory is listed there, and a teardown ends
  on it with \<^verbatim>\<open>IsADirectoryError\<close>, the directory staying in place.
\<close>

lemma teardown_on_subdirectory:
  "fst (os_mkdir ''/tmp/s/sub'' (world1 [])) = Inr ()
   \<and> fst (exit manager1 (snd (os_mkdir ''/tmp/s/sub'' (world1 [])))) = Inl IsADirectoryError
   \<and> dirs (snd (snd (exit manager1 (snd (os_mkdir ''/tmp/s/sub'' (world1 [])))))) ''/tmp/s''
       = Some [dir_entry ''sub'' 1000]"
  by (simp add: os_mkdir_def exit_simps)

lemma mkdtemp_inner_result:
  "mkdtemp_inner k dir pre w = (Inr p, w') \<Longrightarrow>
     dirs w p = None \<and> dirs w' p = Some [] \<and> timers w' = timers w"
proof (induction k arbitrary: w)
  case 0
  then show ?case by simp
next
  case (Suc k)
  let ?w1 = "w\<lparr>drawn := Suc (drawn w)\<rparr>"
  let ?p = "path_join dir (pre @ rng w (drawn w))"
  obtain r2 w2 where o: "os_mkdir ?p ?w1 = (r2, w2)" by (cases "os_mkdir ?p ?w1")
  show ?case
  proof (cases r2)
    case (Inl e)
    with o os_mkdir_failure have w2: "w2 = ?w1" by blast
    from Suc.prems o Inl w2 have "mkdtemp_inner k dir pre ?w1 = (Inr p, w')"
      by (auto simp: next_name_def split: if_splits)
    from Suc.IH [OF this] show ?thesis by simp
  next
    case (Inr u)
    with Suc.prems o have "p = ?p" "w' = w2" by (auto simp: next_name_def)
    with os_mkdir_result [OF o [unfolded Inr]] show ?thesis by simp
  qed
qed


text \<open>
  What \<^verbatim>\<open>enter\<close> establishes when the default temporary directory is absolute and the
  candidate names are non-empty and hold no path separator: the scratch directory is set,
  absolute, exists and is empty.
\<close>

lemma enter_active:
  assumes "enter m w = (Inr u, m1, w1)" and "isabs (tempdir w)"
    and "\<forall>j. rng w j \<noteq> [] \<and> CHR ''/'' \<notin> set (rng w j)"
  shows "\<exists>d. temp_dir m1 = Some d \<and> isabs d \<and> last d \<noteq> CHR ''/'' \<and> dirs w1 d = Some []
           \<and> rng w1 = rng w"
proof -
  have res: "mkdtemp_inner k dir pre w = (Inr p, w') \<Longrightarrow> \<exists>j. p = path_join dir (pre @ rng w j) \<and> rng w' = rng w"
    for k dir pre w p w'
  proof (induction k arbitrary: w)
    case 0
    then show ?case by simp
  next
    case (Suc k)
    let ?w1 = "w\<lparr>drawn := Suc (drawn w)\<rparr>"
    let ?p = "path_join dir (pre @ rng w (drawn w))"
    obtain r2 w2 where o: "os_mkdir ?p ?w1 = (r2, w2)" by (cases "os_mkdir ?p ?w1")
    show ?case
    proof (cases r2)
      case (Inl e)
      with o os_mkdir_failure have w2: "w2 = ?w1" by blast
      from Suc.prems o Inl w2 have "mkdtemp_inner k dir pre ?w1 = (Inr p, w')"
        by (auto simp: next_name_def split: if_splits)
      from Suc.IH [OF this] show ?thesis by simp
    next
      case (Inr v)
      with Suc.prems o have "p = ?p" "w' = w2" by (auto simp: next_name_def)
      moreover from o Inr have "rng w2 = rng w"
        by (auto simp: os_mkdir_def split: option.splits if_splits)
      ultimately show ?thesis by blast
    qed
  qed
  obtain r0 w0 where k: "mkdtemp ''py_temp_manager-'' w = (r0, w0)"
    by (cases "mkdtemp ''py_temp_manager-'' w")
  with assms(1) obtain d where r0: "r0 = Inr d" by (cases r0) (auto simp: enter_def)
  from k r0 have mk: "mkdtemp_inner TMP_MAX (tempdir w) ''py_temp_manager-'' w = (Inr d, w0)"
    by (simp add: mkdtemp_def)
  from res [OF mk] obtain j where d: "d = path_join (tempdir w) (''py_temp_manager-'' @ rng w j)"
    and rg: "rng w0 = rng w" by blast
  from assms(3) have nm: "rng w j \<noteq> []" "CHR ''/'' \<notin> set (rng w j)" by simp_all
  from nm have "last (rng w j) \<in> set (rng w j)" by simp
  with nm have "last (rng w j) \<noteq> CHR ''/''" by metis
  note nm = nm this
  from assms(2) have "isabs d" "last d \<noteq> CHR ''/''"
    using nm unfolding d by (auto simp: path_join_def isabs_def)
  moreover from mkdtemp_inner_result [OF mk] have "dirs w0 d = Some []" by simp
  ultimately show ?thesis using assms(1) k r0 rg
    by (auto simp: enter_def start_periodic_check_eq)
qed





text \<open>
  C8, as stated, fails. \<^verbatim>\<open>remove_old_files\<close> ends with an unconditional call of
  \<^verbatim>\<open>start_periodic_check\<close>. In the schedule where the teardown runs after the loop of
  a sweep and before that call, the sweep starts a new timer on a manager that is torn
  down: the directory is gone and a sweep is pending.
\<close>

theorem sweep_rearm_counterexample:
  "fst (sweep_around_exit manager1 (timer_fire 0 (world1 [plain_file ''a'' 0]))) = Inr ()
   \<and> temp_dir (fst (snd (sweep_around_exit manager1 (timer_fire 0 (world1 [plain_file ''a'' 0]))))) = None
   \<and> dirs (snd (snd (sweep_around_exit manager1 (timer_fire 0 (world1 [plain_file ''a'' 0]))))) ''/tmp/s'' = None
   \<and> timers (snd (snd (sweep_around_exit manager1 (timer_fire 0 (world1 [plain_file ''a'' 0])))))
       = [(60, Fired), (60, Pending)]
   \<and> any_pending (snd (snd (sweep_around_exit manager1 (timer_fire 0 (world1 [plain_file ''a'' 0])))))"
  by (simp add: sweep_around_exit_def timer_fire_def pending_def any_pending_def sweep_simps exit_simps)

text \<open>
  C8, amended. A sweep that runs to its end starts the next timer, with the interval
  \<open>check_interval\<close>, whatever number of files it deleted, and it does run to its end
  when it meets no file system error; it makes no check of its own for a teardown. A
  sweep that starts on a manager whose scratch directory is cleared raises at once and
  starts no timer.
\<close>

theorem sweep_always_rearms:
  "(remove_old_files m w = (Inr (), m', w') \<longrightarrow>
      m' = m\<lparr>timer := Some (length (timers w))\<rparr>
      \<and> timers w' = timers w @ [(check_interval m, Pending)] \<and> pending w' (length (timers w)))
   \<and> (temp_dir m = Some d \<and> dirs w d = Some es \<and> distinct (names_of es)
        \<and> (\<forall>e\<in>set es. stat_err e = None \<and> unlink_err e = None) \<longrightarrow>
        (\<exists>m' w'. remove_old_files m w = (Inr (), m', w')))
   \<and> (temp_dir m = None \<longrightarrow> remove_old_files m w = (Inl AttributeError, m, w))"
proof -
  have a: "m' = m\<lparr>timer := Some (length (timers w))\<rparr>
      \<and> timers w' = timers w @ [(check_interval m, Pending)] \<and> pending w' (length (timers w))"
    if r: "remove_old_files m w = (Inr (), m', w')"
  proof -
    obtain r1 m1 w1 where f: "remove_old_for m w = (r1, m1, w1)" by (cases "remove_old_for m w")
    with r obtain u where r1: "r1 = Inr u" by (cases r1) (auto simp: remove_old_files_def)
    from remove_old_for_frame [OF f] have "m1 = m" "timers w1 = timers w" by simp_all
    with r f r1 show ?thesis
      by (auto simp: remove_old_files_def start_periodic_check_eq pending_def)
  qed
  have b: "\<exists>m' w'. remove_old_files m w = (Inr (), m', w')"
    if "temp_dir m = Some d" "dirs w d = Some es" "distinct (names_of es)"
      "\<forall>e\<in>set es. stat_err e = None \<and> unlink_err e = None"
  proof -
    from remove_old_loop_ok [of w d "[]" es "[]" m] that(2-4) obtain w1 where
      "remove_old_loop m d (names_of es) w = (Inr (), w1)" by auto
    with that(1,2) show ?thesis
      by (simp add: remove_old_files_def remove_old_for_def iterdir_def start_periodic_check_eq)
  qed
  have c: "remove_old_files m w = (Inl AttributeError, m, w)" if "temp_dir m = None"
    using that by (simp add: remove_old_files_def remove_old_for_def)
  from a b c show ?thesis by blast
qed

theorem sweep_always_rearms_witness:
  "(\<exists>m' w'. remove_old_files manager1 (world1 [plain_file ''a'' 0, plain_file ''b'' 999]) = (Inr (), m', w')
      \<and> timer m' = Some 1 \<and> timers w' = [(60, Pending), (60, Pending)])
   \<and> remove_old_files manager0 world0 = (Inl AttributeError, manager0, world0)"
proof -
  let ?es = "[plain_file ''a'' 0, plain_file ''b'' 999]"
  have h: "temp_dir manager1 = Some ''/tmp/s'' \<and> dirs (world1 ?es) ''/tmp/s'' = Some ?es
      \<and> distinct (names_of ?es) \<and> (\<forall>e\<in>set ?es. stat_err e = None \<and> unlink_err e = None)"
    by (simp add: manager1_def world1_def world0_def names_of_def plain_file_def)
  from sweep_always_rearms [where m = manager1 and w = "world1 ?es" and d = "''/tmp/s''" and es = ?es] h
  obtain m' w' where r: "remove_old_files manager1 (world1 ?es) = (Inr (), m', w')" by blast
  have t: "length (timers (world1 ?es)) = 1" "timers (world1 ?es) = [(60, Pending)]"
    "check_interval manager1 = 60"
    by (simp_all add: world1_def world0_def manager1_def)
  from sweep_always_rearms [where m = manager1 and w = "world1 ?es" and m' = m' and w' = w'] r t
  have 1: "timer m' = Some 1 \<and> timers w' = [(60, Pending), (60, Pending)]" by simp
  have "temp_dir manager0 = None" by (simp add: manager0_def)
  with sweep_always_rearms [where m = manager0 and w = world0]
  have 2: "remove_old_files manager0 world0 = (Inl AttributeError, manager0, world0)" by blast
  from r 1 2 show ?thesis by blast
qed

text \<open>
  C9, as stated, fails. The callback registered at construction is \<^verbatim>\<open>exit\<close> itself;
  when a file of the scratch directory cannot be unlinked the callback ends with that
  error, and nothing has been logged.
\<close>

theorem exit_hook_counterexample:
  "atexit (snd (TempManager_init 60 600 world0)) = [TempManager_exit]
   \<and> fst (run_callback TempManager_exit manager1 (world1 [locked_file ''a'' 0])) = Inl PermissionError
   \<and> trace (snd (snd (run_callback TempManager_exit manager1 (world1 [locked_file ''a'' 0]))))
       = [TimerCancel 0]"
  by (simp add: TempManager_init_def exit_simps)

text \<open>
  C9, amended. Construction registers one callback with the exit hook, \<^verbatim>\<open>exit\<close> itself.
  The callback catches nothing: when the unlink of an entry \<open>e\<close> of the scratch directory
  raises \<open>err\<close>, the entries before it being deletable, the callback ends with \<open>err\<close>,
  and the only effects are the cancelling of the timer and the removals done before
  \<open>e\<close>, with their log records.
\<close>

theorem exit_hook_propagates:
  "atexit (snd (TempManager_init ci rt w0)) = atexit w0 @ [TempManager_exit]
   \<and> (temp_dir m = Some d \<and> dirs w d = Some (pre @ e # post)
        \<and> distinct (names_of (pre @ e # post)) \<and> (\<forall>x\<in>set pre. unlink_err x = None)
        \<and> unlink_err e = Some err \<longrightarrow>
        (\<exists>w'. run_callback TempManager_exit m w = (Inl err, m\<lparr>timer := None\<rparr>, w')
           \<and> dirs w' d = Some (e # post)
           \<and> trace w' = trace w @ (case timer m of None \<Rightarrow> [] | Some h \<Rightarrow> [TimerCancel h])
                @ unlink_events d (names_of pre)))"
  using exit_fails [of m d w pre e post err] by (auto simp: TempManager_init_def)

theorem exit_hook_propagates_witness:
  "atexit (snd (TempManager_init 60 600 world0)) = [TempManager_exit]
   \<and> (\<exists>m' w'. run_callback TempManager_exit manager1 (world1 [plain_file ''a'' 0, locked_file ''b'' 0])
         = (Inl PermissionError, m', w')
       \<and> dirs w' ''/tmp/s'' = Some [locked_file ''b'' 0]
       \<and> trace w' = [TimerCancel 0, Unlink ''/tmp/s/a'', Log DEBUG ''Removed file: /tmp/s/a''])"
proof -
  let ?w = "world1 [plain_file ''a'' 0, locked_file ''b'' 0]"
  have h: "temp_dir manager1 = Some ''/tmp/s''
      \<and> dirs ?w ''/tmp/s'' = Some ([plain_file ''a'' 0] @ locked_file ''b'' 0 # [])
      \<and> distinct (names_of ([plain_file ''a'' 0] @ locked_file ''b'' 0 # []))
      \<and> (\<forall>x\<in>set [plain_file ''a'' 0]. unlink_err x = None)
      \<and> unlink_err (locked_file ''b'' 0) = Some PermissionError"
    by (simp add: manager1_def world1_def world0_def names_of_def plain_file_def locked_file_def)
  have t: "timer manager1 = Some 0" "trace ?w = []" "atexit world0 = []"
    "unlink_events ''/tmp/s'' (names_of [plain_file ''a'' 0])
       = [Unlink ''/tmp/s/a'', Log DEBUG ''Removed file: /tmp/s/a'']"
    by (simp_all add: manager1_def world1_def world0_def unlink_events_def names_of_def
        plain_file_def path_join_def)
  from exit_hook_propagates [of 60 600 world0 manager1 "''/tmp/s''" ?w "[plain_file ''a'' 0]"
      "locked_file ''b'' 0" "[]" PermissionError] h t
  show ?thesis by auto
qed



end
